(* ===== verification/Go_Prelude.thy ===== *)
theory Go_Prelude
  imports Main "HOL-Library.AList" "HOL-Library.Word" "HOL-Library.Multiset"
begin

text \<open>
  What the Go sources use of the language and its standard library, shared by every
  component: fixed-width integers, errors, maps with their zero-value lookup, byte strings
  with the operations of package strings the code calls, decimal formatting, and the
  reference function for "keep the first element of each key" that the seen-map loops
  compute. Go strings are byte sequences, so a HOL \<open>string\<close> (a list of 8-bit characters)
  is exactly one; string literals with non-ASCII text are written with their UTF-8 bytes.
\<close>

named_theorems go_map_simps \<open>lookup after an update of a Go map\<close>
named_theorems go_str_simps \<open>rewriting of Go string operations\<close>

section \<open>Integers, time, errors\<close>

type_synonym int32 = "32 word"
type_synonym int64 = "64 word"

text \<open>An instant (\<^verbatim>\<open>time.Time\<close>, \<^verbatim>\<open>metav1.Time\<close>) and a duration, both in nanoseconds.\<close>

type_synonym time = int
type_synonym duration = int

abbreviation second :: duration where
  "second \<equiv> 1000000000"

text \<open>A Go \<open>error\<close> is its message; a call that returns (value, error) is a sum.\<close>

type_synonym err = string

text \<open>\<^verbatim>\<open>int32(n)\<close> of a length or a counter keeps the low 32 bits.\<close>

definition to_int32 :: "nat \<Rightarrow> int32" where
  "to_int32 n = word_of_nat n"

lemma unat_to_int32: "n < 2 ^ 31 \<Longrightarrow> unat (to_int32 n) = n"
  by (simp add: to_int32_def unat_of_nat take_bit_nat_eq_self)

lemma sint_to_int32: "n < 2 ^ 31 \<Longrightarrow> sint (to_int32 n) = int n"
proof -
  assume n: "n < 2 ^ 31"
  have "word_of_nat n = (word_of_int (int n) :: int32)" by simp
  then have "sint (word_of_nat n :: int32) = signed_take_bit 31 (int n)"
    by (simp only: sint_sbintrunc') simp
  with n show ?thesis by (simp add: to_int32_def signed_take_bit_int_eq_self)
qed

section \<open>Go maps\<close>

text \<open>
  A Go map is a finite association list read through \<^const>\<open>map_of\<close>; \<open>m[k] = v\<close> is
  \<^const>\<open>AList.update\<close>. Reading an absent key gives the zero value, which every use names.
  Nothing depends on the order of the list: where the source ranges over a map, the order of
  the iteration is an argument \<open>ks\<close> of the model, any list with \<open>range_order m ks\<close>.
\<close>

type_synonym ('k, 'v) gomap = "('k \<times> 'v) list"

definition mget :: "'v \<Rightarrow> ('k, 'v) gomap \<Rightarrow> 'k \<Rightarrow> 'v" where
  "mget z m k = (case map_of m k of None \<Rightarrow> z | Some v \<Rightarrow> v)"

definition mhas :: "('k, 'v) gomap \<Rightarrow> 'k \<Rightarrow> bool" where
  "mhas m k = (map_of m k \<noteq> None)"

definition mset_key :: "'k \<Rightarrow> 'v \<Rightarrow> ('k, 'v) gomap \<Rightarrow> ('k, 'v) gomap" where
  "mset_key k v m = AList.update k v m"

definition mkeys :: "('k, 'v) gomap \<Rightarrow> 'k set" where
  "mkeys m = fst ` set m"

definition range_order :: "('k, 'v) gomap \<Rightarrow> 'k list \<Rightarrow> bool" where
  "range_order m ks = (distinct ks \<and> set ks = mkeys m)"

lemma mget_set [simp, go_map_simps]:
  "mget z (mset_key k v m) k' = (if k' = k then v else mget z m k')"
  by (simp add: mget_def mset_key_def AList.update_conv')

lemma mhas_set [simp, go_map_simps]: "mhas (mset_key k v m) k' = (k' = k \<or> mhas m k')"
  by (simp add: mhas_def mset_key_def AList.update_conv')

lemma map_of_set [simp, go_map_simps]: "map_of (mset_key k v m) = (map_of m)(k \<mapsto> v)"
  by (simp add: mset_key_def AList.update_conv')

lemma mkeys_set [simp, go_map_simps]: "mkeys (mset_key k v m) = insert k (mkeys m)"
  by (auto simp: mkeys_def mset_key_def AList.dom_update)

lemma mget_Nil [simp, go_map_simps]: "mget z [] k = z"
  by (simp add: mget_def)

lemma mhas_Nil [simp, go_map_simps]: "mhas [] k = False"
  by (simp add: mhas_def)

lemma mkeys_Nil [simp, go_map_simps]: "mkeys [] = {}"
  by (simp add: mkeys_def)

lemma mhas_iff_mkeys: "mhas m k \<longleftrightarrow> k \<in> mkeys m"
  by (simp add: mhas_def mkeys_def map_of_eq_None_iff)

lemma finite_mkeys [simp, intro]: "finite (mkeys m)"
  by (simp add: mkeys_def)

section \<open>Keeping the first element of each key\<close>

fun first_by :: "('a \<Rightarrow> 'k) \<Rightarrow> 'a list \<Rightarrow> 'a list" where
  "first_by key [] = []"
| "first_by key (x # xs) = x # filter (\<lambda>y. key y \<noteq> key x) (first_by key xs)"

lemma set_first_by: "set (first_by key xs) \<subseteq> set xs"
  by (induction xs) auto

lemma keys_first_by: "key ` set (first_by key xs) = key ` set xs"
proof (induction xs)
  case Nil
  then show ?case by simp
next
  case (Cons x xs)
  have "insert (key x) (key ` {y \<in> A. key y \<noteq> key x}) = insert (key x) (key ` A)" for A
    by auto
  with Cons show ?case by simp
qed

lemma inj_on_first_by: "inj_on key (set (first_by key xs))"
  by (induction xs) (auto simp: inj_on_def)

lemma distinct_keys_first_by: "distinct (map key (first_by key xs))"
proof (induction xs)
  case Nil
  then show ?case by simp
next
  case (Cons x xs)
  then show ?case by (auto simp: distinct_map intro: inj_on_subset)
qed

lemma first_by_filter_key:
  "first_by key (filter (\<lambda>y. P (key y)) xs) = filter (\<lambda>y. P (key y)) (first_by key xs)"
  by (induction xs) (auto simp: filter_filter intro!: filter_cong)

text \<open>The element kept for a key is the first one of the list that carries it.\<close>

lemma first_by_find: "x \<in> set (first_by key xs) \<longleftrightarrow> find (\<lambda>y. key y = key x) xs = Some x"
proof (induction xs)
  case Nil
  then show ?case by simp
next
  case (Cons a xs)
  then show ?case by (cases "key a = key x") auto
qed

lemma length_first_by: "length (first_by key xs) = card (key ` set xs)"
proof -
  have "length (first_by key xs) = card (key ` set (first_by key xs))"
    using distinct_card [OF distinct_keys_first_by [of key xs]] by simp
  then show ?thesis by (simp add: keys_first_by)
qed

section \<open>Byte strings\<close>

text \<open>\<^verbatim>\<open>strings.Split(s, sep)\<close> and \<^verbatim>\<open>strings.SplitN(s, sep, 2)\<close> for a one-byte separator.\<close>

fun split_on :: "char \<Rightarrow> string \<Rightarrow> string list" where
  "split_on c [] = [[]]"
| "split_on c (x # xs) =
     (if x = c then [] # split_on c xs
      else (case split_on c xs of [] \<Rightarrow> [[x]] | p # ps \<Rightarrow> (x # p) # ps))"

definition split_first :: "char \<Rightarrow> string \<Rightarrow> string list" where
  "split_first c s =
     (if c \<in> set s
      then [takeWhile (\<lambda>x. x \<noteq> c) s, tl (dropWhile (\<lambda>x. x \<noteq> c) s)] else [s])"

lemma split_on_nonempty [simp]: "split_on c s \<noteq> []"
  by (induction s) (auto split: list.splits)

text \<open>\<^verbatim>\<open>strings.Join\<close>.\<close>

fun join_with :: "string \<Rightarrow> string list \<Rightarrow> string" where
  "join_with sep [] = []"
| "join_with sep [x] = x"
| "join_with sep (x # y # ys) = x @ sep @ join_with sep (y # ys)"

lemma join_split: "join_with [c] (split_on c s) = s"
proof (induction s)
  case Nil
  then show ?case by simp
next
  case (Cons x s)
  obtain p ps where ps: "split_on c s = p # ps" by (cases "split_on c s") auto
  have "join_with [c] ((x # p) # ps) = x # join_with [c] (p # ps)" by (cases ps) simp_all
  with Cons ps show ?case by (cases ps) auto
qed

text \<open>\<^verbatim>\<open>strings.Index(s, " ")\<close>-style search for one byte; \<open>None\<close> is Go's -1.\<close>

fun index_of :: "char \<Rightarrow> string \<Rightarrow> nat option" where
  "index_of c [] = None"
| "index_of c (x # xs) = (if x = c then Some 0 else map_option Suc (index_of c xs))"

lemma index_of_Some: "index_of c s = Some i \<Longrightarrow> i < length s \<and> s ! i = c"
  by (induction s arbitrary: i) (auto split: if_splits)

definition has_prefix :: "string \<Rightarrow> string \<Rightarrow> bool" where
  "has_prefix p s = (take (length p) s = p)"

text \<open>\<^verbatim>\<open>strings.Contains(s, sub)\<close>.\<close>

fun contains_sub :: "string \<Rightarrow> string \<Rightarrow> bool" where
  "contains_sub p [] = (p = [])"
| "contains_sub p (x # xs) = (has_prefix p (x # xs) \<or> contains_sub p xs)"

lemma has_prefix_iff: "has_prefix p s \<longleftrightarrow> (\<exists>u. s = p @ u)"
  by (metis append_eq_conv_conj append_take_drop_id has_prefix_def)

lemma contains_sub_iff: "contains_sub p s \<longleftrightarrow> (\<exists>u v. s = u @ p @ v)"
proof (induction s)
  case Nil
  then show ?case by auto
next
  case (Cons x s)
  have "(\<exists>u v. x # s = u @ p @ v) \<longleftrightarrow> has_prefix p (x # s) \<or> (\<exists>u v. s = u @ p @ v)"
    unfolding has_prefix_iff by (metis append_Cons append_Nil list.inject neq_Nil_conv)
  with Cons show ?case by simp
qed

text \<open>
  \<^verbatim>\<open>strings.TrimSpace\<close>: the UTF-8 encodings of the Unicode White_Space characters,
  removed at both ends.
\<close>

definition space_runes :: "string list" where
  "space_runes =
     [[CHR 0x09], [CHR 0x0A], [CHR 0x0B], [CHR 0x0C], [CHR 0x0D], [CHR 0x20],
      [CHR 0xC2, CHR 0x85], [CHR 0xC2, CHR 0xA0], [CHR 0xE1, CHR 0x9A, CHR 0x80],
      [CHR 0xE2, CHR 0x80, CHR 0x80], [CHR 0xE2, CHR 0x80, CHR 0x81],
      [CHR 0xE2, CHR 0x80, CHR 0x82], [CHR 0xE2, CHR 0x80, CHR 0x83],
      [CHR 0xE2, CHR 0x80, CHR 0x84], [CHR 0xE2, CHR 0x80, CHR 0x85],
      [CHR 0xE2, CHR 0x80, CHR 0x86], [CHR 0xE2, CHR 0x80, CHR 0x87],
      [CHR 0xE2, CHR 0x80, CHR 0x88], [CHR 0xE2, CHR 0x80, CHR 0x89],
      [CHR 0xE2, CHR 0x80, CHR 0x8A], [CHR 0xE2, CHR 0x80, CHR 0xA8],
      [CHR 0xE2, CHR 0x80, CHR 0xA9], [CHR 0xE2, CHR 0x80, CHR 0xAF],
      [CHR 0xE2, CHR 0x81, CHR 0x9F], [CHR 0xE3, CHR 0x80, CHR 0x80]]"

text \<open>The width of the first rune of a list of runes that starts the string, 0 if none does.\<close>

definition lead_width :: "string list \<Rightarrow> string \<Rightarrow> nat" where
  "lead_width rs s = (case find (\<lambda>r. has_prefix r s) rs of None \<Rightarrow> 0 | Some r \<Rightarrow> length r)"

function strip_lead :: "string list \<Rightarrow> string \<Rightarrow> string" where
  "strip_lead rs s =
     (if 0 < lead_width rs s \<and> s \<noteq> [] then strip_lead rs (drop (lead_width rs s) s) else s)"
  by pat_completeness auto
termination
  by (relation "measure (\<lambda>(rs, s). length s)") auto

declare strip_lead.simps [simp del]

definition trim_space :: "string \<Rightarrow> string" where
  "trim_space s =
     rev (strip_lead (map rev space_runes) (rev (strip_lead space_runes s)))"

lemma strip_lead_suffix: "\<exists>u. s = u @ strip_lead rs s"
proof (induction rs s rule: strip_lead.induct)
  case (1 rs s)
  show ?case
  proof (cases "0 < lead_width rs s \<and> s \<noteq> []")
    case True
    with "1" obtain u where "drop (lead_width rs s) s = u @ strip_lead rs (drop (lead_width rs s) s)"
      by blast
    then have "s = (take (lead_width rs s) s @ u) @ strip_lead rs (drop (lead_width rs s) s)"
      by (metis append_assoc append_take_drop_id)
    moreover from True have "strip_lead rs s = strip_lead rs (drop (lead_width rs s) s)"
      by (subst strip_lead.simps) simp
    ultimately show ?thesis by metis
  next
    case False
    then show ?thesis by (subst strip_lead.simps) auto
  qed
qed

lemma trim_space_infix: "\<exists>u v. s = u @ trim_space s @ v"
proof -
  obtain u where u: "s = u @ strip_lead space_runes s" using strip_lead_suffix by blast
  obtain w where "rev (strip_lead space_runes s) =
      w @ strip_lead (map rev space_runes) (rev (strip_lead space_runes s))"
    using strip_lead_suffix by blast
  then have "strip_lead space_runes s = trim_space s @ rev w"
    unfolding trim_space_def by (metis rev_append rev_rev_ident)
  with u show ?thesis by metis
qed

lemma length_trim_space: "length (trim_space s) \<le> length s"
  using trim_space_infix [of s] by (metis length_append le_add1 le_add2 le_trans)

text \<open>Decimal formatting of counters (\<^verbatim>\<open>%d\<close>, \<^verbatim>\<open>%v\<close> of an integer).\<close>

fun nat_str :: "nat \<Rightarrow> string" where
  "nat_str n =
     (if n < 10 then [char_of (48 + n)] else nat_str (n div 10) @ [char_of (48 + n mod 10)])"

declare nat_str.simps [simp del]

definition int_str :: "int \<Rightarrow> string" where
  "int_str i = (if i < 0 then ''-'' @ nat_str (nat (- i)) else nat_str (nat i))"

definition bool_str :: "bool \<Rightarrow> string" where
  "bool_str b = (if b then ''true'' else ''false'')"

end
