(* ===== verification/Api_Types.thy ===== *)
theory Api_Types
  imports Go_Prelude
begin

text \<open>
  The API types of api/v1alpha1: the custom resources SREPolicy and SREGlobalConfig and the
  structs they are made of, one record per struct with the fields of the source behind a
  prefix per struct. The string-typed enumerations of the source stay strings, because any
  string can arrive in them (the code tests some of them against constants and falls through
  on the others); each constant is a definition. Optional pointers are \<open>option\<close>.
  Of the Kubernetes metadata the code reads, the object record keeps name, namespace,
  finalizers, deletion timestamp and generation.
\<close>

named_theorems api_consts \<open>definitions of the string constants of the API\<close>

section \<open>Enumerations\<close>

type_synonym severity_level = string

definition SeverityCritical :: severity_level where [api_consts]: "SeverityCritical = ''Critical''"
definition SeverityWarning :: severity_level where [api_consts]: "SeverityWarning = ''Warning''"
definition SeverityInfo :: severity_level where [api_consts]: "SeverityInfo = ''Info''"

type_synonym check_category = string

definition CheckCategoryLogs :: check_category where
  [api_consts]: "CheckCategoryLogs = ''Logs''"
definition CheckCategoryOCPCluster :: check_category where
  [api_consts]: "CheckCategoryOCPCluster = ''OCPCluster''"
definition CheckCategoryPrometheus :: check_category where
  [api_consts]: "CheckCategoryPrometheus = ''Prometheus''"
definition CheckCategoryVM :: check_category where
  [api_consts]: "CheckCategoryVM = ''VM''"

type_synonym remediation_action = string

definition RemediationNone :: remediation_action where
  [api_consts]: "RemediationNone = ''None''"
definition RemediationAlert :: remediation_action where
  [api_consts]: "RemediationAlert = ''Alert''"
definition RemediationDiagnose :: remediation_action where
  [api_consts]: "RemediationDiagnose = ''Diagnose''"
definition RemediationRestart :: remediation_action where
  [api_consts]: "RemediationRestart = ''Restart''"
definition RemediationMigrate :: remediation_action where
  [api_consts]: "RemediationMigrate = ''Migrate''"
definition RemediationDrain :: remediation_action where
  [api_consts]: "RemediationDrain = ''Drain''"
definition RemediationScale :: remediation_action where
  [api_consts]: "RemediationScale = ''Scale''"
definition RemediationEvict :: remediation_action where
  [api_consts]: "RemediationEvict = ''Evict''"
definition ActionDiagnoseLogs :: remediation_action where
  [api_consts]: "ActionDiagnoseLogs = ''DiagnoseLogs''"
definition ActionDiagnoseResourceStatus :: remediation_action where
  [api_consts]: "ActionDiagnoseResourceStatus = ''DiagnoseResourceStatus''"
definition ActionDiagnoseExecCommand :: remediation_action where
  [api_consts]: "ActionDiagnoseExecCommand = ''DiagnoseExecCommand''"
definition ActionDiagnoseNodeJournal :: remediation_action where
  [api_consts]: "ActionDiagnoseNodeJournal = ''DiagnoseNodeJournal''"
definition ActionDiagnosePrometheus :: remediation_action where
  [api_consts]: "ActionDiagnosePrometheus = ''DiagnosePrometheusQuery''"
definition ActionRemediateDeleteResource :: remediation_action where
  [api_consts]: "ActionRemediateDeleteResource = ''RemediateDeleteResource''"
definition ActionRemediatePatchResource :: remediation_action where
  [api_consts]: "ActionRemediatePatchResource = ''RemediatePatchResource''"
definition ActionRemediateScaleDeployment :: remediation_action where
  [api_consts]: "ActionRemediateScaleDeployment = ''RemediateScaleDeployment''"
definition ActionRemediateVirtctlAction :: remediation_action where
  [api_consts]: "ActionRemediateVirtctlAction = ''RemediateVirtctlAction''"
definition ActionRemediateNodeSystemctl :: remediation_action where
  [api_consts]: "ActionRemediateNodeSystemctl = ''RemediateNodeSystemctl''"

type_synonym run_condition = string

definition RunOnSuccess :: run_condition where [api_consts]: "RunOnSuccess = ''OnSuccess''"
definition RunOnFailure :: run_condition where [api_consts]: "RunOnFailure = ''OnFailure''"
definition RunAlways :: run_condition where [api_consts]: "RunAlways = ''Always''"

type_synonym step_state = string

definition StepPending :: step_state where [api_consts]: "StepPending = ''Pending''"
definition StepRunning :: step_state where [api_consts]: "StepRunning = ''Running''"
definition StepSucceeded :: step_state where [api_consts]: "StepSucceeded = ''Succeeded''"
definition StepFailed :: step_state where [api_consts]: "StepFailed = ''Failed''"
definition StepSkipped :: step_state where [api_consts]: "StepSkipped = ''Skipped''"

lemma step_state_neqs [simp]:
  "StepPending \<noteq> StepRunning" "StepPending \<noteq> StepSucceeded" "StepPending \<noteq> StepFailed"
  "StepPending \<noteq> StepSkipped" "StepRunning \<noteq> StepPending" "StepRunning \<noteq> StepSucceeded"
  "StepRunning \<noteq> StepFailed" "StepRunning \<noteq> StepSkipped" "StepSucceeded \<noteq> StepPending"
  "StepSucceeded \<noteq> StepRunning" "StepSucceeded \<noteq> StepFailed" "StepSucceeded \<noteq> StepSkipped"
  "StepFailed \<noteq> StepPending" "StepFailed \<noteq> StepRunning" "StepFailed \<noteq> StepSucceeded"
  "StepFailed \<noteq> StepSkipped" "StepSkipped \<noteq> StepPending" "StepSkipped \<noteq> StepRunning"
  "StepSkipped \<noteq> StepSucceeded" "StepSkipped \<noteq> StepFailed" "StepPending \<noteq> []"
  "StepRunning \<noteq> []" "StepSucceeded \<noteq> []" "StepFailed \<noteq> []" "StepSkipped \<noteq> []"
  "[] \<noteq> StepPending" "[] \<noteq> StepRunning" "[] \<noteq> StepSucceeded" "[] \<noteq> StepFailed"
  "[] \<noteq> StepSkipped"
  by (simp_all add: api_consts)

lemma run_condition_neqs [simp]:
  "RunOnSuccess \<noteq> RunOnFailure" "RunOnSuccess \<noteq> RunAlways" "RunOnFailure \<noteq> RunOnSuccess"
  "RunOnFailure \<noteq> RunAlways" "RunAlways \<noteq> RunOnSuccess" "RunAlways \<noteq> RunOnFailure"
  "RunOnSuccess \<noteq> []" "RunOnFailure \<noteq> []" "RunAlways \<noteq> []"
  "[] \<noteq> RunOnSuccess" "[] \<noteq> RunOnFailure" "[] \<noteq> RunAlways"
  by (simp_all add: api_consts)

section \<open>Workflows and checks\<close>

record remediation_step =
  rs_Name :: string
  rs_Action :: remediation_action
  rs_DependsOn :: "string list"
  rs_RunCondition :: run_condition
  rs_Arguments :: "(string, string) gomap"

record remediation_workflow =
  rw_Steps :: "remediation_step list"

record check_result =
  cr_CheckName :: string
  cr_Category :: check_category
  cr_ResourceRef :: string
  cr_Status :: string
  cr_Severity :: severity_level
  cr_Message :: string
  cr_LastChecked :: "time option"
  cr_TraceID :: string
  cr_RemediationApplied :: remediation_action
  cr_RemediationAttempts :: int64
  cr_RunbookURL :: string

record check_spec =
  cs_Name :: string
  cs_Category :: check_category
  cs_Enabled :: bool
  cs_Severity :: severity_level
  cs_Remediation :: remediation_action
  cs_RemediationWorkflow :: "remediation_workflow option"
  cs_RunbookURL :: string
  cs_IntervalSeconds :: int32

section \<open>Specifications\<close>

record log_collection_spec =
  lc_Enabled :: bool
  lc_CollectVMPodLogs :: bool
  lc_CollectOperatorLogs :: bool
  lc_TailLines :: int32
  lc_SinceSeconds :: int32
  lc_OnAlertOnly :: bool
  lc_PersistToConfigMap :: bool
  lc_ErrorPatterns :: "string list"

record observability_spec =
  ob_TracingEnabled :: bool
  ob_MetricsEnabled :: bool
  ob_LogsEnabled :: bool
  ob_OTelEndpoint :: string

record ocp_cluster_spec =
  oc_Enabled :: bool
  oc_CheckClusterOperators :: bool
  oc_CheckClusterVersion :: bool
  oc_CheckMachineConfigPools :: bool
  oc_Remediation :: remediation_action
  oc_RunbookURL :: string

record alert_trigger =
  at_Name :: string
  at_AlertName :: string
  at_Enabled :: bool
  at_Remediation :: remediation_action
  at_RemediationWorkflow :: "remediation_workflow option"
  at_MaxFiringDurationMinutes :: int32
  at_CollectLogs :: bool
  at_CollectOCPClusterState :: bool
  at_RunbookURL :: string
  at_LabelSelectors :: "(string, string) gomap"

text \<open>The two \<^verbatim>\<open>float64\<close> thresholds are kept as their IEEE 754 bit patterns.\<close>

record metric_query =
  mq_Name :: string
  mq_Expr :: string
  mq_Description :: string
  mq_Operator :: string
  mq_WarningThreshold :: "64 word"
  mq_CriticalThreshold :: "64 word"
  mq_Enabled :: bool
  mq_Remediation :: remediation_action
  mq_RunbookURL :: string

record prometheus_spec =
  pr_Enabled :: bool
  pr_AlertTriggers :: "alert_trigger list"
  pr_MetricQueries :: "metric_query list"

record notifications_spec =
  no_EventsEnabled :: bool

record sre_policy_spec =
  sp_TargetNamespaces :: "string list"
  sp_Checks :: "check_spec list"
  sp_Paused :: bool
  sp_OCPCluster :: "ocp_cluster_spec option"
  sp_Prometheus :: "prometheus_spec option"
  sp_LogCollection :: "log_collection_spec option"
  sp_Notifications :: "notifications_spec option"

section \<open>Status\<close>

record workflow_step_status =
  ws_Name :: string
  ws_State :: step_state
  ws_Message :: string
  ws_StartTime :: "time option"
  ws_FinishTime :: "time option"

record workflow_execution_status =
  we_ID :: string
  we_WorkflowName :: string
  we_TargetResource :: string
  we_State :: step_state
  we_Steps :: "workflow_step_status list"
  we_StartTime :: "time option"

text \<open>\<^verbatim>\<open>metav1.Condition\<close>: the fields the code sets.\<close>

record status_condition =
  co_Type :: string
  co_Status :: string
  co_Reason :: string
  co_Message :: string
  co_LastTransitionTime :: time

record sre_policy_status =
  st_Findings :: "check_result list"
  st_ActiveWorkflows :: "workflow_execution_status list"
  st_LastScanTime :: "time option"
  st_NextScanTime :: "time option"
  st_TotalChecks :: int32
  st_RemediationsApplied :: int32
  st_ObservedGeneration :: int64
  st_HealthyCount :: int32
  st_DegradedCount :: int32
  st_FailedCount :: int32
  st_Phase :: string
  st_Conditions :: "status_condition list"
  st_OCPClusterHealthy :: "bool option"
  st_FiringAlertCount :: int32
  st_FiringAlertNames :: "string list"
  st_ObservabilityEndpointReachable :: "bool option"

record sre_policy =
  po_Name :: string
  po_Namespace :: string
  po_Finalizers :: "string list"
  po_DeletionTimestamp :: "time option"
  po_Generation :: int64
  po_Spec :: sre_policy_spec
  po_Status :: sre_policy_status

record sre_policy_list =
  pl_Items :: "sre_policy list"

section \<open>The cluster-wide configuration\<close>

record retention_spec =
  re_MaxConfigMapCopies :: int32
  re_MaxConfigMapAgeDays :: int32

record defaults_spec =
  df_VMNamespace :: string
  df_ExcludedNamespaces :: "string list"

text \<open>\<^verbatim>\<open>corev1.SecretKeySelector\<close>: the two fields the code reads.\<close>

record secret_key_selector =
  sk_Name :: string
  sk_Key :: string

record global_prometheus_spec =
  gp_PrometheusURL :: string
  gp_AlertManagerURL :: string
  gp_InsecureSkipVerify :: bool
  gp_BearerTokenSecretRef :: "secret_key_selector option"

record sre_global_config_spec =
  gs_Observability :: "observability_spec option"
  gs_Retention :: "retention_spec option"
  gs_Defaults :: "defaults_spec option"
  gs_Prometheus :: "global_prometheus_spec option"

record sre_global_config_status =
  gt_Phase :: string
  gt_Conditions :: "status_condition list"

record sre_global_config =
  gc_Name :: string
  gc_Spec :: sre_global_config_spec
  gc_Status :: sre_global_config_status

record sre_global_config_list =
  gl_Items :: "sre_global_config list"

end
