(* ===== verification/Toposort.thy ===== *)
theory Toposort
  imports Api_Types
begin

text \<open>
  The topological sort of a remediation workflow, the method \<^verbatim>\<open>topologicalSort\<close> of
  internal/remediation/remediation.go: Kahn's algorithm over three Go maps (graph, in-degree,
  steps by name) and a queue. The start queue is filled by ranging over the in-degree map, whose
  order Go leaves open, so the order of that range is the argument \<open>ks\<close>. The abstract
  specification is \<open>valid_dag\<close> (unique names, known dependencies, no cycle) and
  \<open>deps_first\<close> (each step after the steps it depends on); the lemmas show that the code
  accepts exactly the valid workflows and returns a dependency-respecting permutation of them,
  whatever the order of the range.
\<close>

section \<open>The code\<close>

datatype topo_error = DependencyNotFound string | CycleDetected

record topo_maps =
  tm_graph :: "(string, string list) gomap"
  tm_inDegree :: "(string, int) gomap"
  tm_stepMap :: "(string, remediation_step) gomap"

text \<open>The loop over \<^verbatim>\<open>step.DependsOn\<close>.\<close>

fun topo_add_deps :: "string \<Rightarrow> string list \<Rightarrow> topo_maps \<Rightarrow> topo_maps" where
  "topo_add_deps n [] t = t"
| "topo_add_deps n (d # ds) t =
     topo_add_deps n ds
       (t\<lparr>tm_graph := mset_key d (mget [] (tm_graph t) d @ [n]) (tm_graph t),
          tm_inDegree := mset_key n (mget 0 (tm_inDegree t) n + 1) (tm_inDegree t)\<rparr>)"

text \<open>One turn of the loop that builds the maps.\<close>

definition topo_add_step :: "remediation_step \<Rightarrow> topo_maps \<Rightarrow> topo_maps" where
  "topo_add_step step t =
     (let t1 = t\<lparr>tm_stepMap := mset_key (rs_Name step) step (tm_stepMap t)\<rparr>;
          t2 = (if mhas (tm_inDegree t1) (rs_Name step) then t1
                else t1\<lparr>tm_inDegree := mset_key (rs_Name step) 0 (tm_inDegree t1)\<rparr>)
      in topo_add_deps (rs_Name step) (rs_DependsOn step) t2)"

definition topo_build :: "remediation_step list \<Rightarrow> topo_maps" where
  "topo_build steps =
     fold topo_add_step steps \<lparr>tm_graph = [], tm_inDegree = [], tm_stepMap = []\<rparr>"

text \<open>The loop over \<^verbatim>\<open>graph[curr]\<close>: decrement, and enqueue at zero.\<close>

fun topo_relax :: "string list \<Rightarrow> (string, int) gomap \<Rightarrow> string list
    \<Rightarrow> (string, int) gomap \<times> string list" where
  "topo_relax [] deg queue = (deg, queue)"
| "topo_relax (n # ns) deg queue =
     (let d = mget 0 deg n - 1; deg' = mset_key n d deg
      in topo_relax ns deg' (if d = 0 then queue @ [n] else queue))"

text \<open>The names whose in-degree is still positive: what the main loop consumes.\<close>

definition topo_waiting :: "(string, int) gomap \<Rightarrow> string set" where
  "topo_waiting deg = {n. 0 < mget 0 deg n}"

lemma finite_topo_waiting [simp]: "finite (topo_waiting deg)"
proof (rule finite_subset)
  show "topo_waiting deg \<subseteq> mkeys deg"
    by (auto simp: topo_waiting_def mget_def mkeys_def map_of_eq_None_iff split: option.splits
        dest: map_of_SomeD intro: rev_image_eqI)
qed simp

lemma topo_relax_measure:
  assumes "topo_relax ns deg queue = (deg', queue')"
  shows "length queue' + card (topo_waiting deg') \<le> length queue + card (topo_waiting deg)"
  using assms
proof (induction ns arbitrary: deg queue)
  case Nil
  then show ?case by simp
next
  case (Cons n ns)
  let ?d = "mget 0 deg n - 1"
  let ?deg = "mset_key n ?d deg"
  let ?q = "if ?d = 0 then queue @ [n] else queue"
  have "topo_relax ns ?deg ?q = (deg', queue')"
    using Cons.prems by (simp add: Let_def)
  then have IH: "length queue' + card (topo_waiting deg') \<le> length ?q + card (topo_waiting ?deg)"
    by (rule Cons.IH)
  have sub: "topo_waiting ?deg \<subseteq> topo_waiting deg"
    by (auto simp: topo_waiting_def split: if_splits)
  have "length ?q + card (topo_waiting ?deg) \<le> length queue + card (topo_waiting deg)"
  proof (cases "?d = 0")
    case True
    then have "n \<in> topo_waiting deg" "n \<notin> topo_waiting ?deg"
      by (auto simp: topo_waiting_def)
    with sub have "topo_waiting ?deg \<subset> topo_waiting deg" by blast
    then have "card (topo_waiting ?deg) < card (topo_waiting deg)"
      by (simp add: psubset_card_mono)
    with True show ?thesis by simp
  next
    case False
    with sub show ?thesis by (simp add: card_mono)
  qed
  with IH show ?case by linarith
qed

text \<open>The main loop. It returns the sorted steps and the count, or the lookup error.\<close>

function topo_loop :: "topo_maps \<Rightarrow> (string, int) gomap \<Rightarrow> string list \<Rightarrow> remediation_step list
    \<Rightarrow> nat \<Rightarrow> topo_error + remediation_step list \<times> nat" where
  "topo_loop t deg [] out cnt = Inr (out, cnt)"
| "topo_loop t deg (cur # queue) out cnt =
     (case map_of (tm_stepMap t) cur of
        None \<Rightarrow> Inl (DependencyNotFound cur)
      | Some step \<Rightarrow>
          (case topo_relax (mget [] (tm_graph t) cur) deg queue of (deg', queue') \<Rightarrow>
             topo_loop t deg' queue' (out @ [step]) (Suc cnt)))"
  by pat_completeness auto
termination
proof (relation "measure (\<lambda>(t, deg, queue, out, cnt). length queue + card (topo_waiting deg))",
    goal_cases)
  case 1
  show ?case by simp
next
  case (2 t deg cur queue out cnt step deg' queue')
  then have "topo_relax (mget [] (tm_graph t) cur) deg queue = (deg', queue')" by simp
  from topo_relax_measure [OF this] show ?case by simp
qed

definition topologicalSort :: "string list \<Rightarrow> remediation_step list
    \<Rightarrow> topo_error + remediation_step list" where
  "topologicalSort ks steps =
     (let t = topo_build steps;
          queue = filter (\<lambda>name. mget 0 (tm_inDegree t) name = 0) ks
      in case topo_loop t (tm_inDegree t) queue [] 0 of
           Inl e \<Rightarrow> Inl e
         | Inr (out, cnt) \<Rightarrow> if cnt \<noteq> length steps then Inl CycleDetected else Inr out)"

section \<open>The specification\<close>

definition step_names :: "remediation_step list \<Rightarrow> string list" where
  "step_names steps = map rs_Name steps"

definition dep_edges :: "remediation_step list \<Rightarrow> (string \<times> string) list" where
  "dep_edges steps = concat (map (\<lambda>s. map (\<lambda>d. (d, rs_Name s)) (rs_DependsOn s)) steps)"

text \<open>Unique names, dependencies among the steps, no cycle of dependencies.\<close>

definition valid_dag :: "remediation_step list \<Rightarrow> bool" where
  "valid_dag steps \<longleftrightarrow>
     distinct (step_names steps) \<and>
     (\<forall>s \<in> set steps. set (rs_DependsOn s) \<subseteq> set (step_names steps)) \<and>
     acyclic (set (dep_edges steps))"

text \<open>Each step's dependencies are names of earlier steps.\<close>

fun deps_first_from :: "string list \<Rightarrow> remediation_step list \<Rightarrow> bool" where
  "deps_first_from seen [] = True"
| "deps_first_from seen (s # ss) =
     ((\<forall>d \<in> set (rs_DependsOn s). d \<in> set seen) \<and> deps_first_from (rs_Name s # seen) ss)"

definition deps_first :: "remediation_step list \<Rightarrow> bool" where
  "deps_first ss = deps_first_from [] ss"

lemma deps_first_from_append:
  "deps_first_from seen (xs @ ys) \<longleftrightarrow>
     deps_first_from seen xs \<and> deps_first_from (rev (step_names xs) @ seen) ys"
  by (induction xs arbitrary: seen) (auto simp: step_names_def)

section \<open>What the maps hold after the first loop\<close>

text \<open>The number of edges into a name from names outside a set.\<close>

definition open_deps :: "remediation_step list \<Rightarrow> string set \<Rightarrow> string \<Rightarrow> nat" where
  "open_deps steps A n = length (filter (\<lambda>e. snd e = n \<and> fst e \<notin> A) (dep_edges steps))"

lemma dep_edges_simps [simp]:
  "dep_edges [] = []"
  "dep_edges (s # ss) = map (\<lambda>d. (d, rs_Name s)) (rs_DependsOn s) @ dep_edges ss"
  by (simp_all add: dep_edges_def)

lemma step_names_simps [simp]:
  "step_names [] = []" "step_names (s # ss) = rs_Name s # step_names ss"
  "step_names (xs @ ys) = step_names xs @ step_names ys"
  by (simp_all add: step_names_def)

lemma length_step_names [simp]: "length (step_names xs) = length xs"
  by (simp add: step_names_def)

lemma set_step_names: "set (step_names xs) = rs_Name ` set xs"
  by (simp add: step_names_def)

lemma dep_edges_iff:
  "(d, n) \<in> set (dep_edges steps) \<longleftrightarrow> (\<exists>s \<in> set steps. rs_Name s = n \<and> d \<in> set (rs_DependsOn s))"
  by (auto simp: dep_edges_def)

lemma topo_add_deps_maps:
  "mget [] (tm_graph (topo_add_deps n ds t)) k =
     mget [] (tm_graph t) k @ map snd (filter (\<lambda>e. fst e = k) (map (\<lambda>d. (d, n)) ds))"
  "mget 0 (tm_inDegree (topo_add_deps n ds t)) k =
     mget 0 (tm_inDegree t) k + (if k = n then int (length ds) else 0)"
  "tm_stepMap (topo_add_deps n ds t) = tm_stepMap t"
  "mkeys (tm_inDegree (topo_add_deps n ds t)) =
     (if ds = [] then mkeys (tm_inDegree t) else insert n (mkeys (tm_inDegree t)))"
  by (induction ds arbitrary: t) auto

lemma mget_absent: "k \<notin> mkeys m \<Longrightarrow> mget z m k = z"
  by (metis mget_def mhas_def mhas_iff_mkeys option.simps(4))

lemma topo_add_step_maps:
  "mget [] (tm_graph (topo_add_step s t)) k =
     mget [] (tm_graph t) k @ map snd (filter (\<lambda>e. fst e = k) (dep_edges [s]))"
  "mget 0 (tm_inDegree (topo_add_step s t)) k =
     mget 0 (tm_inDegree t) k + int (length (filter (\<lambda>e. snd e = k) (dep_edges [s])))"
  "map_of (tm_stepMap (topo_add_step s t)) = (map_of (tm_stepMap t))(rs_Name s \<mapsto> s)"
  "mkeys (tm_inDegree (topo_add_step s t)) = insert (rs_Name s) (mkeys (tm_inDegree t))"
  by (auto simp: topo_add_step_def Let_def topo_add_deps_maps filter_map o_def
      mhas_iff_mkeys mget_absent)

lemma topo_fold_maps:
  "mget [] (tm_graph (fold topo_add_step steps t)) k =
     mget [] (tm_graph t) k @ map snd (filter (\<lambda>e. fst e = k) (dep_edges steps))"
  "mget 0 (tm_inDegree (fold topo_add_step steps t)) k =
     mget 0 (tm_inDegree t) k + int (length (filter (\<lambda>e. snd e = k) (dep_edges steps)))"
  "mkeys (tm_inDegree (fold topo_add_step steps t)) =
     set (step_names steps) \<union> mkeys (tm_inDegree t)"
  by (induction steps arbitrary: t) (auto simp: topo_add_step_maps)

lemma topo_fold_stepMap:
  "map_of (tm_stepMap (fold topo_add_step steps t)) =
     map_of (tm_stepMap t) ++ map_of (rev (map (\<lambda>s. (rs_Name s, s)) steps))"
  by (induction steps arbitrary: t) (auto simp: topo_add_step_maps map_add_def fun_eq_iff
      split: option.splits)

lemma topo_build_maps:
  "mget [] (tm_graph (topo_build steps)) k = map snd (filter (\<lambda>e. fst e = k) (dep_edges steps))"
  "mget 0 (tm_inDegree (topo_build steps)) k = int (open_deps steps {} k)"
  "mkeys (tm_inDegree (topo_build steps)) = set (step_names steps)"
  "map_of (tm_stepMap (topo_build steps)) = map_of (rev (map (\<lambda>s. (rs_Name s, s)) steps))"
  by (simp_all add: topo_build_def topo_fold_maps topo_fold_stepMap open_deps_def)

lemma topo_build_lookup:
  "map_of (tm_stepMap (topo_build steps)) n = None \<longleftrightarrow> n \<notin> set (step_names steps)"
  by (auto simp: topo_build_maps map_of_eq_None_iff image_image set_step_names)

lemma topo_build_step:
  assumes "map_of (tm_stepMap (topo_build steps)) n = Some s"
  shows "s \<in> set steps \<and> rs_Name s = n"
  using assms by (auto simp: topo_build_maps dest!: map_of_SomeD)

lemma open_deps_0_iff: "open_deps steps A n = 0 \<longleftrightarrow> (\<forall>d. (d, n) \<in> set (dep_edges steps) \<longrightarrow> d \<in> A)"
  by (auto simp: open_deps_def filter_empty_conv)

lemma count_relaxed:
  "count_list (map snd (filter (\<lambda>e. fst e = k) es)) n
     = length (filter (\<lambda>e. snd e = n \<and> fst e = k) es)"
  by (induction es) auto

lemma open_deps_insert:
  assumes "k \<notin> A"
  shows "open_deps steps A n = open_deps steps (insert k A) n +
     count_list (mget [] (tm_graph (topo_build steps)) k) n"
proof -
  have "length (filter (\<lambda>e. snd e = n \<and> fst e \<notin> A) es) =
      length (filter (\<lambda>e. snd e = n \<and> fst e \<notin> insert k A) es) +
      length (filter (\<lambda>e. snd e = n \<and> fst e = k) es)" for es :: "(string \<times> string) list"
    using assms by (induction es) auto
  then show ?thesis by (simp add: open_deps_def topo_build_maps count_relaxed)
qed

section \<open>The invariant of the main loop\<close>

text \<open>
  Relaxing the neighbours of a name lowers each in-degree by the number of edges and enqueues
  exactly the names that reach zero, each once.
\<close>

lemma topo_relax_result:
  assumes "topo_relax ns deg queue = (deg', queue')"
    and "\<And>n. int (count_list ns n) \<le> mget 0 deg n"
  shows "(\<forall>n. mget 0 deg' n = mget 0 deg n - int (count_list ns n)) \<and>
    (\<exists>r. queue' = queue @ r \<and> distinct r \<and>
       set r = {n \<in> set ns. mget 0 deg n = int (count_list ns n)})"
  using assms
proof (induction ns arbitrary: deg queue)
  case Nil
  then show ?case by simp
next
  case (Cons n ns)
  let ?d = "mget 0 deg n - 1"
  let ?deg = "mset_key n ?d deg"
  let ?q = "if ?d = 0 then queue @ [n] else queue"
  have run: "topo_relax ns ?deg ?q = (deg', queue')"
    using Cons.prems(1) by (simp add: Let_def)
  have le: "int (count_list ns m) \<le> mget 0 ?deg m" for m
    using Cons.prems(2) [of m] by (auto split: if_splits)
  from Cons.IH [OF run le] obtain r where
    deg': "\<And>m. mget 0 deg' m = mget 0 ?deg m - int (count_list ns m)"
    and r: "queue' = ?q @ r" "distinct r"
      "set r = {m \<in> set ns. mget 0 ?deg m = int (count_list ns m)}" by blast
  have rm: "m \<in> set r \<longleftrightarrow> m \<in> set ns \<and>
      (if m = n then ?d else mget 0 deg m) = int (count_list ns m)" for m
    using r(3) by simp
  have cnt0: "count_list ns n = 0 \<longleftrightarrow> n \<notin> set ns" by (simp add: count_list_0_iff)
  have "\<forall>m. mget 0 deg' m = mget 0 deg m - int (count_list (n # ns) m)"
    using deg' by simp
  moreover have "\<exists>r. queue' = queue @ r \<and> distinct r \<and>
      set r = {m \<in> set (n # ns). mget 0 deg m = int (count_list (n # ns) m)}"
  proof (cases "?d = 0")
    case True
    then have "n \<notin> set ns" using le [of n] cnt0 by simp
    then have "n \<notin> set r" using r(3) by blast
    have "m \<in> set (n # r) \<longleftrightarrow>
        m \<in> set (n # ns) \<and> mget 0 deg m = int (count_list (n # ns) m)" for m
      using rm [of m] True \<open>n \<notin> set ns\<close> cnt0 by (cases "m = n") simp_all
    then have "set (n # r) = {m \<in> set (n # ns). mget 0 deg m = int (count_list (n # ns) m)}"
      by blast
    moreover have "queue' = queue @ (n # r)" "distinct (n # r)"
      using r(1,2) True \<open>n \<notin> set r\<close> by simp_all
    ultimately show ?thesis by blast
  next
    case False
    then have "m \<in> set r \<longleftrightarrow>
        m \<in> set (n # ns) \<and> mget 0 deg m = int (count_list (n # ns) m)" for m
    proof (cases "m = n")
      case True
      have "n \<in> set r \<longleftrightarrow> n \<in> set ns \<and> ?d = int (count_list ns n)"
        using rm [of n] by simp
      moreover have "n \<notin> set ns \<Longrightarrow> ?d \<noteq> int (count_list ns n)"
        using False cnt0 by simp
      moreover have "mget 0 deg n = int (count_list (n # ns) n) \<longleftrightarrow> ?d = int (count_list ns n)"
        by (simp; linarith)
      ultimately show ?thesis using True by (metis list.set_intros(1))
    next
      case False
      then show ?thesis using rm [of m] by simp
    qed
    then have "set r = {m \<in> set (n # ns). mget 0 deg m = int (count_list (n # ns) m)}"
      by blast
    moreover have "queue' = queue @ r" using r(1) False by simp
    ultimately show ?thesis using r(2) by blast
  qed
  ultimately show ?case by blast
qed

definition topo_inv :: "remediation_step list \<Rightarrow> (string, int) gomap \<Rightarrow> string list
    \<Rightarrow> remediation_step list \<Rightarrow> bool" where
  "topo_inv steps deg queue out \<longleftrightarrow>
     (\<forall>n. mget 0 deg n = int (open_deps steps (set (step_names out)) n)) \<and>
     distinct (step_names out @ queue) \<and>
     set (step_names out @ queue) =
       {n \<in> set (step_names steps). open_deps steps (set (step_names out)) n = 0} \<and>
     set out \<subseteq> set steps \<and> deps_first out"

lemma topo_inv_start:
  assumes "range_order (tm_inDegree (topo_build steps)) ks"
  shows "topo_inv steps (tm_inDegree (topo_build steps))
    (filter (\<lambda>name. mget 0 (tm_inDegree (topo_build steps)) name = 0) ks) []"
  using assms by (auto simp: topo_inv_def topo_build_maps range_order_def deps_first_def)

lemma topo_neighbour: "n \<in> set (mget [] (tm_graph (topo_build steps)) k) \<longleftrightarrow> (k, n) \<in> set (dep_edges steps)"
  by (force simp: topo_build_maps)

lemma dep_edge_target: "(d, n) \<in> set (dep_edges steps) \<Longrightarrow> n \<in> set (step_names steps)"
  by (auto simp: dep_edges_iff set_step_names)

lemma topo_inv_step:
  assumes inv: "topo_inv steps deg (cur # queue) out"
    and s: "map_of (tm_stepMap (topo_build steps)) cur = Some s"
    and relax: "topo_relax (mget [] (tm_graph (topo_build steps)) cur) deg queue = (deg', queue')"
  shows "topo_inv steps deg' queue' (out @ [s])"
proof -
  let ?ns = "mget [] (tm_graph (topo_build steps)) cur"
  let ?A = "set (step_names out)"
  from topo_build_step [OF s] have s': "s \<in> set steps" "rs_Name s = cur" by simp_all
  from inv have deg: "mget 0 deg n = int (open_deps steps ?A n)"
    and dist: "distinct (step_names out @ cur # queue)"
    and front: "set (step_names out @ cur # queue) =
      {n \<in> set (step_names steps). open_deps steps ?A n = 0}"
    and out: "set out \<subseteq> set steps" "deps_first out" for n
    by (simp_all add: topo_inv_def)
  have A': "set (step_names (out @ [s])) = insert cur ?A" using s' by simp
  have split: "open_deps steps ?A n = open_deps steps (insert cur ?A) n + count_list ?ns n" for n
    by (rule open_deps_insert) (use dist in auto)
  have le: "int (count_list ?ns n) \<le> mget 0 deg n" for n
    using split [of n] by (simp add: deg)
  from topo_relax_result [OF relax le] obtain r where
    deg': "\<And>n. mget 0 deg' n = mget 0 deg n - int (count_list ?ns n)"
    and queue': "queue' = queue @ r" and dist_r: "distinct r"
    and r: "set r = {n \<in> set ?ns. mget 0 deg n = int (count_list ?ns n)}" by blast
  have pos: "n \<in> set ?ns \<longleftrightarrow> 0 < count_list ?ns n" for n
    by (metis count_list_0_iff gr0I less_numeral_extra(3))
  have r_iff: "n \<in> set r \<longleftrightarrow> 0 < count_list ?ns n \<and> open_deps steps (insert cur ?A) n = 0" for n
    using split [of n] pos [of n] by (auto simp: r deg)
  have disj: "n \<notin> set (step_names out @ cur # queue)" if "n \<in> set r" for n
    using that split [of n] unfolding front r_iff by simp
  have "n \<in> set (step_names out @ cur # queue) \<or> n \<in> set r \<longleftrightarrow>
      n \<in> set (step_names steps) \<and> open_deps steps (insert cur ?A) n = 0" for n
  proof (cases "0 < count_list ?ns n")
    case True
    then have "(cur, n) \<in> set (dep_edges steps)" using pos topo_neighbour by blast
    then have "n \<in> set (step_names steps)" by (rule dep_edge_target)
    then show ?thesis using split [of n] unfolding front r_iff by auto
  next
    case False
    then show ?thesis using split [of n] unfolding front r_iff by auto
  qed
  then have "set (step_names (out @ [s]) @ queue') =
      {n \<in> set (step_names steps). open_deps steps (insert cur ?A) n = 0}"
    using s' queue' by auto
  moreover have "distinct (step_names (out @ [s]) @ queue')"
    using dist dist_r disj s' queue' by auto
  moreover have "\<forall>d \<in> set (rs_DependsOn s). d \<in> ?A"
  proof -
    have "open_deps steps ?A cur = 0" using front by auto
    then show ?thesis using s' unfolding open_deps_0_iff by (auto simp: dep_edges_iff)
  qed
  then have "deps_first (out @ [s])"
    using out(2) by (simp add: deps_first_def deps_first_from_append)
  moreover have "mget 0 deg' n = int (open_deps steps (insert cur ?A) n)" for n
    using deg' deg split [of n] by simp
  ultimately show ?thesis using out(1) s' by (simp add: topo_inv_def)
qed

text \<open>
  The loop always ends in a result whose output is closed: the queue is empty and the
  invariant holds, so the output holds every name without open dependencies. In particular
  the lookup of a dequeued name never fails.
\<close>

lemma topo_loop_result:
  assumes "topo_inv steps deg queue out" and "cnt = length out"
  shows "\<exists>deg' out'. topo_loop (topo_build steps) deg queue out cnt = Inr (out', length out') \<and>
    topo_inv steps deg' [] out'"
  using assms
proof (induction "topo_build steps" deg queue out cnt rule: topo_loop.induct)
  case (1 deg out cnt)
  then show ?case by auto
next
  case (2 deg cur queue out cnt)
  from "2.prems"(1) have "cur \<in> set (step_names steps)" by (auto simp: topo_inv_def)
  then obtain s where s: "map_of (tm_stepMap (topo_build steps)) cur = Some s"
    using topo_build_lookup by fastforce
  obtain deg' queue' where relax:
    "topo_relax (mget [] (tm_graph (topo_build steps)) cur) deg queue = (deg', queue')"
    by fastforce
  have "topo_inv steps deg' queue' (out @ [s])"
    by (rule topo_inv_step [OF "2.prems"(1) s relax])
  with "2.hyps" [OF s] relax "2.prems"(2) show ?case by (simp add: s)
qed

lemma topologicalSort_cases:
  assumes "range_order (tm_inDegree (topo_build steps)) ks"
  obtains deg out where "topo_inv steps deg [] out"
    and "topologicalSort ks steps =
      (if length out = length steps then Inr out else Inl CycleDetected)"
proof -
  from topo_loop_result [OF topo_inv_start [OF assms], of 0] obtain deg out where
    "topo_inv steps deg [] out" and
    "topo_loop (topo_build steps) (tm_inDegree (topo_build steps))
      (filter (\<lambda>name. mget 0 (tm_inDegree (topo_build steps)) name = 0) ks) [] 0
     = Inr (out, length out)" by auto
  then show ?thesis by (intro that [of deg out]) (auto simp: topologicalSort_def Let_def)
qed

section \<open>Soundness and completeness\<close>

lemma step_names_inj:
  assumes "distinct (step_names steps)" "s \<in> set steps" "t \<in> set steps" "rs_Name s = rs_Name t"
  shows "s = t"
  using assms by (auto simp: step_names_def distinct_map dest: inj_onD)

lemma sorted_all_mset:
  assumes "topo_inv steps deg [] out" and "length out = length steps"
  shows "distinct (step_names steps) \<and> mset out = mset steps"
proof -
  from assms have names: "distinct (step_names out)" "set (step_names out) \<subseteq> set (step_names steps)"
    and sub: "set out \<subseteq> set steps"
    by (auto simp: topo_inv_def)
  have "card (set (step_names out)) = length steps"
    using names(1) assms(2) by (simp add: distinct_card)
  then have "length steps \<le> card (set (step_names steps))"
    using names(2) by (metis List.finite_set card_mono)
  then have dist: "distinct (step_names steps)"
    by (metis card_distinct card_length le_antisym length_step_names)
  have douts: "distinct out" "distinct steps"
    using names(1) dist by (auto simp: step_names_def distinct_map)
  then have "set out = set steps"
    using sub assms(2) by (metis List.finite_set card_subset_eq distinct_card)
  with douts dist show ?thesis by (simp add: set_eq_iff_mset_eq_distinct)
qed

lemma deps_first_from_seen:
  "deps_first_from seen ss \<Longrightarrow> s \<in> set ss \<Longrightarrow> d \<in> set (rs_DependsOn s) \<Longrightarrow>
     d \<in> set seen \<union> set (step_names ss)"
  by (induction ss arbitrary: seen) fastforce+

text \<open>A dependency-respecting order with unique names excludes cycles.\<close>

lemma deps_first_acyclic:
  assumes "deps_first ss" and "distinct (step_names ss)"
  shows "acyclic (set (dep_edges ss))"
proof -
  have "acyclic (set (dep_edges xs)) \<and> Domain (set (dep_edges xs)) \<subseteq> set (step_names xs)"
    if "deps_first xs" "distinct (step_names xs)" for xs
    using that
  proof (induction xs rule: rev_induct)
    case Nil
    then show ?case by (simp add: acyclic_def)
  next
    case (snoc x xs)
    then have IH: "acyclic (set (dep_edges xs))" "Domain (set (dep_edges xs)) \<subseteq> set (step_names xs)"
      and deps: "\<forall>d \<in> set (rs_DependsOn x). d \<in> set (step_names xs)"
      and new: "rs_Name x \<notin> set (step_names xs)"
      by (auto simp: deps_first_def deps_first_from_append)
    let ?E = "set (dep_edges xs)"
    have edges: "set (dep_edges (xs @ [x])) = ?E \<union> (\<lambda>d. (d, rs_Name x)) ` set (rs_DependsOn x)"
      by (auto simp: dep_edges_def)
    have no_out: "(rs_Name x, n) \<notin> set (dep_edges (xs @ [x]))" for n
      using IH(2) deps new by (auto simp: edges)
    have "(n, n) \<notin> (set (dep_edges (xs @ [x])))\<^sup>+" for n
    proof
      assume "(n, n) \<in> (set (dep_edges (xs @ [x])))\<^sup>+"
      moreover have "(a, b) \<in> ?E\<^sup>+ \<or> b = rs_Name x" if "(a, b) \<in> (set (dep_edges (xs @ [x])))\<^sup>+" for a b
        using that
      proof (induction rule: trancl_induct)
        case (base b)
        then show ?case by (auto simp: edges)
      next
        case (step b c)
        then show ?case using no_out by (auto simp: edges intro: trancl_into_trancl)
      qed
      ultimately have "(n, n) \<in> ?E\<^sup>+ \<or> n = rs_Name x" by blast
      then show False
        using IH(1) no_out \<open>(n, n) \<in> _\<close> by (auto simp: acyclic_def dest: tranclD)
    qed
    then have "acyclic (set (dep_edges (xs @ [x])))" by (simp add: acyclic_def)
    moreover have "Domain (set (dep_edges (xs @ [x]))) \<subseteq> set (step_names (xs @ [x]))"
      using IH(2) deps by (auto simp: edges)
    ultimately show ?case ..
  qed
  with assms show ?thesis by blast
qed

lemma topo_complete:
  assumes inv: "topo_inv steps deg [] out" and dag: "valid_dag steps"
  shows "length out = length steps"
proof -
  let ?E = "set (dep_edges steps)"
  let ?rest = "set (step_names steps) - set (step_names out)"
  have "?rest = {}"
  proof (rule ccontr)
    assume "?rest \<noteq> {}"
    moreover have "wf ?E" using dag by (intro finite_acyclic_wf) (auto simp: valid_dag_def)
    ultimately obtain n where n: "n \<in> ?rest" and min: "\<And>d. (d, n) \<in> ?E \<Longrightarrow> d \<notin> ?rest"
      by (metis all_not_in_conv wfE_min')
    have "d \<in> set (step_names out)" if "(d, n) \<in> ?E" for d
    proof -
      have "d \<in> set (step_names steps)"
        using that dag by (auto simp: valid_dag_def dep_edges_iff)
      with min [OF that] show ?thesis by blast
    qed
    then have "open_deps steps (set (step_names out)) n = 0"
      by (auto simp: open_deps_0_iff)
    with n inv show False by (auto simp: topo_inv_def)
  qed
  then have "set (step_names out) = set (step_names steps)"
    using inv by (auto simp: topo_inv_def)
  then show ?thesis
    using inv dag by (metis (no_types, lifting) append_Nil2 distinct_card length_step_names topo_inv_def valid_dag_def)
qed

lemma topo_sound:
  assumes inv: "topo_inv steps deg [] out" and len: "length out = length steps"
  shows "valid_dag steps"
proof -
  from sorted_all_mset [OF inv len] have dist: "distinct (step_names steps)"
    and perm: "mset out = mset steps" by simp_all
  from perm have sets: "set out = set steps" by (metis set_mset_mset)
  then have names: "set (step_names out) = set (step_names steps)" by (simp add: set_step_names)
  have first: "deps_first out" "distinct (step_names out)"
    using inv by (simp_all add: topo_inv_def)
  have "set (dep_edges out) = set (dep_edges steps)" using sets by (auto simp: dep_edges_def)
  then have "acyclic (set (dep_edges steps))" using deps_first_acyclic [OF first] by simp
  moreover have "set (rs_DependsOn s) \<subseteq> set (step_names steps)" if "s \<in> set steps" for s
    using deps_first_from_seen [of "[]" out s] first(1) that sets names
    by (auto simp: deps_first_def)
  ultimately show ?thesis using dist by (simp add: valid_dag_def)
qed

lemma topologicalSort_valid:
  assumes "range_order (tm_inDegree (topo_build steps)) ks" and "topologicalSort ks steps = Inr out"
  shows "valid_dag steps"
proof (rule topologicalSort_cases [OF assms(1)])
  fix deg out' assume inv: "topo_inv steps deg [] out'"
    and "topologicalSort ks steps =
      (if length out' = length steps then Inr out' else Inl CycleDetected)"
  with assms(2) have "length out' = length steps" by (auto split: if_splits)
  then show ?thesis using topo_sound [OF inv] by blast
qed

section \<open>Properties\<close>

text \<open>A concrete workflow, from the linear case of the repository's test.\<close>

definition mk_step :: "string \<Rightarrow> string list \<Rightarrow> run_condition \<Rightarrow> remediation_step" where
  "mk_step n ds c =
     \<lparr>rs_Name = n, rs_Action = n, rs_DependsOn = ds, rs_RunCondition = c, rs_Arguments = []\<rparr>"

definition linear_steps :: "remediation_step list" where
  "linear_steps = [mk_step ''step3'' [''step2''] [], mk_step ''step1'' [] [],
     mk_step ''step2'' [''step1''] []]"

definition cyclic_steps :: "remediation_step list" where
  "cyclic_steps = [mk_step ''step1'' [''step3''] [], mk_step ''step2'' [''step1''] [],
     mk_step ''step3'' [''step2''] []]"

lemmas example_steps = mk_step_def linear_steps_def cyclic_steps_def
lemmas topo_eval = topologicalSort_def topo_build_def topo_add_step_def mset_key_def mget_def
  mhas_def Let_def range_order_def mkeys_def

lemma linear_range:
  "range_order (tm_inDegree (topo_build linear_steps)) [''step1'', ''step2'', ''step3'']"
  by (auto simp: topo_eval example_steps)

lemma cyclic_range:
  "range_order (tm_inDegree (topo_build cyclic_steps)) [''step1'', ''step2'', ''step3'']"
  by (auto simp: topo_eval example_steps)

lemma linear_sorted:
  "topologicalSort [''step1'', ''step2'', ''step3''] linear_steps =
     Inr [mk_step ''step1'' [] [], mk_step ''step2'' [''step1''] [], mk_step ''step3'' [''step2''] []]"
  by (simp add: topo_eval example_steps)

text \<open>
  C1. Whatever the iteration order of the in-degree map, an accepted workflow is returned as a
  permutation of its steps in which every step comes after all the steps it depends on.
\<close>
theorem topologicalSort_sound:
  assumes "range_order (tm_inDegree (topo_build steps)) ks"
    and "topologicalSort ks steps = Inr out"
  shows "mset out = mset steps \<and> deps_first out"
proof -
  obtain deg out' where "topo_inv steps deg [] out'"
    and "topologicalSort ks steps =
      (if length out' = length steps then Inr out' else Inl CycleDetected)"
    using topologicalSort_cases [OF assms(1)] .
  with assms(2) show ?thesis using sorted_all_mset [of steps deg out]
    by (auto simp: topo_inv_def split: if_splits)
qed

theorem topologicalSort_sound_witness:
  "mset [mk_step ''step1'' [] [], mk_step ''step2'' [''step1''] [],
       mk_step ''step3'' [''step2''] []] = mset linear_steps \<and>
   deps_first [mk_step ''step1'' [] [], mk_step ''step2'' [''step1''] [],
       mk_step ''step3'' [''step2''] []]"
  by (rule topologicalSort_sound [OF linear_range linear_sorted])

text \<open>
  C12. The sort accepts exactly the valid workflows: it returns an order if and only if the
  step names are unique, every dependency names a step, and the dependencies have no cycle.
\<close>
theorem topologicalSort_accepts_iff:
  assumes "range_order (tm_inDegree (topo_build steps)) ks"
  shows "(\<exists>out. topologicalSort ks steps = Inr out) = valid_dag steps"
proof -
  obtain deg out where inv: "topo_inv steps deg [] out"
    and run: "topologicalSort ks steps =
      (if length out = length steps then Inr out else Inl CycleDetected)"
    using topologicalSort_cases [OF assms] .
  have "valid_dag steps \<longleftrightarrow> length out = length steps"
    using topo_sound [OF inv] topo_complete [OF inv] by blast
  with run show ?thesis by simp
qed

theorem topologicalSort_accepts_iff_witness: "valid_dag linear_steps"
  using topologicalSort_accepts_iff [OF linear_range] linear_sorted by blast

text \<open>
  C39. The lookup of a dequeued name never fails: the only error the sort can return is the
  cycle error, so a dependency on an unknown step and a duplicated name are both reported as
  a cycle and the branch with the message "dependency not found in steps" is dead.
\<close>
theorem topologicalSort_error:
  assumes "range_order (tm_inDegree (topo_build steps)) ks"
    and "topologicalSort ks steps = Inl e"
  shows "e = CycleDetected \<and> \<not> valid_dag steps"
proof -
  obtain deg out where inv: "topo_inv steps deg [] out"
    and run: "topologicalSort ks steps =
      (if length out = length steps then Inr out else Inl CycleDetected)"
    using topologicalSort_cases [OF assms(1)] .
  from run assms(2) have "length out \<noteq> length steps" "e = CycleDetected"
    by (simp_all split: if_splits)
  then show ?thesis using topo_complete [OF inv] by blast
qed

lemma missing_range:
  "range_order (tm_inDegree (topo_build [mk_step ''a'' [''b''] []])) [''a'']"
  by (simp add: topo_eval example_steps)

theorem topologicalSort_error_witness:
  "topologicalSort [''a''] [mk_step ''a'' [''b''] []] = Inl CycleDetected \<and>
   \<not> valid_dag [mk_step ''a'' [''b''] []]"
proof -
  have run: "topologicalSort [''a''] [mk_step ''a'' [''b''] []] = Inl CycleDetected"
    by (simp add: topo_eval example_steps)
  from topologicalSort_error [OF missing_range run] run show ?thesis by simp
qed

end
