(* ===== verification/Remediation.thy ===== *)
theory Remediation
  imports Api_Types
begin

text \<open>
  The remediation engine of internal/remediation/remediation.go: \<open>executeStep\<close> and
  \<open>Apply\<close> of \<^verbatim>\<open>Engine\<close>, and the alert dispatcher. Errors are a datatype whose
  messages are the source's; the actions themselves are stubs in the source (they return
  success once their arguments are there), so a step has no other effect than its result.
\<close>

datatype action_error =
    UseWorkflowRunner
  | MissingPattern
  | MissingPatchArguments
  | MissingCommand

fun action_error_msg :: "action_error \<Rightarrow> err" where
  "action_error_msg UseWorkflowRunner = ''use WorkflowRunner for DAGs''"
| "action_error_msg MissingPattern = ''missing 'pattern' argument for DiagnoseLogs''"
| "action_error_msg MissingPatchArguments = ''missing 'patchType' or 'patchBody' argument''"
| "action_error_msg MissingCommand = ''missing 'command' argument''"

text \<open>The switch on the action; a missing argument reads as the empty string.\<close>

definition executeStep :: "check_result \<Rightarrow> remediation_step \<Rightarrow> action_error option" where
  "executeStep f step =
     (if rs_Action step = ActionDiagnoseLogs then
        (if mget [] (rs_Arguments step) ''pattern'' = [] then Some MissingPattern else None)
      else if rs_Action step = ActionRemediatePatchResource then
        (let patchType = mget [] (rs_Arguments step) ''patchType'';
             patchBody = mget [] (rs_Arguments step) ''patchBody''
         in if patchType = [] \<or> patchBody = [] then Some MissingPatchArguments else None)
      else if rs_Action step = ActionRemediateVirtctlAction then
        (if mget [] (rs_Arguments step) ''command'' = [] then Some MissingCommand else None)
      else None)"

definition Apply :: "check_result \<Rightarrow> check_spec \<Rightarrow> remediation_action \<times> action_error option" where
  "Apply f spec =
     (case cs_RemediationWorkflow spec of
        Some dag \<Rightarrow>
          if 0 < length (rw_Steps dag) then (RemediationNone, Some UseWorkflowRunner)
          else (cs_Remediation spec,
            executeStep f \<lparr>rs_Name = [], rs_Action = cs_Remediation spec, rs_DependsOn = [],
              rs_RunCondition = [], rs_Arguments = []\<rparr>)
      | None \<Rightarrow> (cs_Remediation spec,
            executeStep f \<lparr>rs_Name = [], rs_Action = cs_Remediation spec, rs_DependsOn = [],
              rs_RunCondition = [], rs_Arguments = []\<rparr>))"

record alert_dispatch_result =
  ad_Error :: "err option"
  ad_Skipped :: bool
  ad_Action :: remediation_action
  ad_TriggerName :: string
  ad_TargetResource :: string

record alert_trigger_result =
  tr_AlertName :: string

text \<open>The dispatcher of the source is a stub: it returns no result and does nothing.\<close>

definition Dispatch :: "alert_trigger_result list \<Rightarrow> alert_trigger list \<Rightarrow> check_result list
    \<Rightarrow> alert_dispatch_result list" where
  "Dispatch results triggers findings = []"

section \<open>Properties of the engine\<close>

lemma action_consts_neq [simp]:
  "ActionDiagnoseLogs \<noteq> ActionRemediatePatchResource"
  "ActionDiagnoseLogs \<noteq> ActionRemediateVirtctlAction"
  "ActionRemediatePatchResource \<noteq> ActionDiagnoseLogs"
  "ActionRemediatePatchResource \<noteq> ActionRemediateVirtctlAction"
  "ActionRemediateVirtctlAction \<noteq> ActionDiagnoseLogs"
  "ActionRemediateVirtctlAction \<noteq> ActionRemediatePatchResource"
  by (simp_all add: api_consts)

text \<open>What a step needs: the arguments its action reads must be there and not empty.\<close>

definition required_args :: "remediation_action \<Rightarrow> string list" where
  "required_args a =
     (if a = ActionDiagnoseLogs then [''pattern'']
      else if a = ActionRemediatePatchResource then [''patchType'', ''patchBody'']
      else if a = ActionRemediateVirtctlAction then [''command''] else [])"

lemma executeStep_None_iff:
  "executeStep f step = None \<longleftrightarrow>
     (\<forall>k \<in> set (required_args (rs_Action step)). mget [] (rs_Arguments step) k \<noteq> [])"
  by (auto simp: executeStep_def required_args_def Let_def)

text \<open>
  The single-action path passes no arguments, so the three actions that need arguments always
  fail there, and a check with a non-empty workflow is never remediated by \<open>Apply\<close>.
\<close>

definition has_workflow :: "check_spec \<Rightarrow> bool" where
  "has_workflow spec = (\<exists>dag. cs_RemediationWorkflow spec = Some dag \<and> rw_Steps dag \<noteq> [])"

lemma Apply_workflow:
  "has_workflow spec \<Longrightarrow> Apply f spec = (RemediationNone, Some UseWorkflowRunner)"
  by (auto simp: Apply_def has_workflow_def)

lemma Apply_action:
  assumes "\<not> has_workflow spec"
  shows "fst (Apply f spec) = cs_Remediation spec"
    and "snd (Apply f spec) = None \<longleftrightarrow> required_args (cs_Remediation spec) = []"
  using assms by (auto simp: Apply_def has_workflow_def executeStep_def required_args_def
      Let_def split: option.splits)

end
