(* ===== verification/Interfaces.thy ===== *)
theory Interfaces
  imports Go_Prelude
begin

text \<open>
  The contracts components rely on, as locales, with the lemmas that follow from a contract
  alone: a table read and written by key (the step statuses of a workflow, the conditions of
  a status, Go maps), with the extension to tables that accept new keys; and a state machine
  with an inductive invariant (the runs of a workflow, the reconcile cycles of the controller).
  Each provider interprets the locale in its own theory.
\<close>

section \<open>Tables\<close>

locale keyed_store =
  fixes get :: "'s \<Rightarrow> 'k \<Rightarrow> 'v"
    and put :: "'k \<Rightarrow> 'v \<Rightarrow> 's \<Rightarrow> 's"
    and keys :: "'s \<Rightarrow> 'k set"
  assumes get_put_same: "k \<in> keys s \<Longrightarrow> get (put k v s) k = v"
    and get_put_other: "k' \<noteq> k \<Longrightarrow> get (put k v s) k' = get s k'"
    and keys_put: "k \<in> keys s \<Longrightarrow> keys (put k v s) = keys s"
begin

lemma get_put: "k \<in> keys s \<Longrightarrow> get (put k v s) k' = (if k' = k then v else get s k')"
  by (simp add: get_put_same get_put_other)

lemma get_put_fun: "k \<in> keys s \<Longrightarrow> get (put k v s) = (get s)(k := v)"
  by (rule ext) (simp add: get_put)

lemma put_put: "k \<in> keys s \<Longrightarrow> get (put k w (put k v s)) = (get s)(k := w)"
  by (simp add: get_put_fun keys_put)

end

locale inserting_store = keyed_store +
  assumes get_put_new: "get (put k v s) k = v"
    and keys_put_insert: "keys (put k v s) = insert k (keys s)"
begin

lemma get_put_all: "get (put k v s) = (get s)(k := v)"
  by (rule ext) (simp add: get_put_new get_put_other)

lemma keys_fold_put: "keys (fold (\<lambda>(k, v). put k v) kvs s) = fst ` set kvs \<union> keys s"
  by (induction kvs arbitrary: s) (auto simp: keys_put_insert)

lemma get_fold_put_other:
  "k \<notin> fst ` set kvs \<Longrightarrow> get (fold (\<lambda>(k, v). put k v) kvs s) k = get s k"
  by (induction kvs arbitrary: s) (auto simp: get_put_all)

end

interpretation go_map: inserting_store "mget z" mset_key mkeys for z
  by unfold_locales (auto simp: insert_absorb)

section \<open>State machines\<close>

inductive reachable :: "('s \<Rightarrow> bool) \<Rightarrow> ('s \<Rightarrow> 's \<Rightarrow> bool) \<Rightarrow> 's \<Rightarrow> bool"
  for init :: "'s \<Rightarrow> bool" and step :: "'s \<Rightarrow> 's \<Rightarrow> bool" where
  reach_init: "init s \<Longrightarrow> reachable init step s"
| reach_step: "reachable init step s \<Longrightarrow> step s t \<Longrightarrow> reachable init step t"

locale inductive_invariant =
  fixes init :: "'s \<Rightarrow> bool"
    and step :: "'s \<Rightarrow> 's \<Rightarrow> bool"
    and inv :: "'s \<Rightarrow> bool"
  assumes inv_init: "init s \<Longrightarrow> inv s"
    and inv_step: "inv s \<Longrightarrow> step s t \<Longrightarrow> inv t"
begin

lemma inv_reachable: "reachable init step s \<Longrightarrow> inv s"
  by (induction rule: reachable.induct) (auto intro: inv_init inv_step)

end

end
