(* ===== verification/Workflow_Run.thy ===== *)
theory Workflow_Run
  imports Toposort Remediation Interfaces
begin

text \<open>
  The workflow runner of internal/remediation/remediation.go: one call of \<^verbatim>\<open>Run\<close>
  is one iteration of a remediation DAG, on a persisted \<^verbatim>\<open>WorkflowExecutionStatus\<close>.
  The clock and the record of the actions executed are a small world threaded through the
  call: \<open>wo_ticks\<close> counts the readings of the clock \<open>clk\<close>, \<open>wo_calls\<close> the steps
  handed to \<^verbatim>\<open>executeStep\<close>, in order. The method \<^verbatim>\<open>executeStep\<close> of the
  runner's engine is the argument \<open>ex\<close>; \<open>Run\<close> is the instance with the engine of the
  source. The abstract specification is the outcome of a step as a function of the outcomes
  of its dependencies; the step table is read and written through the table contract.
\<close>

section \<open>The code\<close>

record world =
  wo_ticks :: nat
  wo_calls :: "remediation_step list"

datatype workflow_error = DAGValidationFailed topo_error

text \<open>\<^verbatim>\<open>getStepState\<close>: the state of the first entry of that name, Pending if none.\<close>

fun getStepState :: "workflow_step_status list \<Rightarrow> string \<Rightarrow> step_state" where
  "getStepState [] name = StepPending"
| "getStepState (s # ss) name = (if ws_Name s = name then ws_State s else getStepState ss name)"

text \<open>
  \<^verbatim>\<open>setStepStatus\<close>: state and message of the first entry of that name; a state that is
  neither Pending nor Running stamps the finish time, once.
\<close>

fun setStepStatus :: "(nat \<Rightarrow> time) \<Rightarrow> nat \<Rightarrow> string \<Rightarrow> step_state \<Rightarrow> string
    \<Rightarrow> workflow_step_status list \<Rightarrow> workflow_step_status list \<times> nat" where
  "setStepStatus clk k name st msg [] = ([], k)"
| "setStepStatus clk k name st msg (s # ss) =
     (if ws_Name s = name then
        (let s1 = s\<lparr>ws_State := st, ws_Message := msg\<rparr>
         in if st \<noteq> StepPending \<and> st \<noteq> StepRunning \<and> ws_FinishTime s = None
            then (s1\<lparr>ws_FinishTime := Some (clk k)\<rparr> # ss, Suc k)
            else (s1 # ss, k))
      else (case setStepStatus clk k name st msg ss of (ss', k') \<Rightarrow> (s # ss', k')))"

definition set_status :: "(nat \<Rightarrow> time) \<Rightarrow> string \<Rightarrow> step_state \<Rightarrow> string
    \<Rightarrow> workflow_step_status list \<times> world \<Rightarrow> workflow_step_status list \<times> world" where
  "set_status clk name st msg tw =
     (case setStepStatus clk (wo_ticks (snd tw)) name st msg (fst tw) of
        (tbl, k) \<Rightarrow> (tbl, (snd tw)\<lparr>wo_ticks := k\<rparr>))"

text \<open>
  The loop over \<^verbatim>\<open>step.DependsOn\<close>, which stops at the first dependency that is
  still pending or running: (depsSatisfied, anyDepFailed).
\<close>

fun checkDeps :: "(string \<Rightarrow> step_state) \<Rightarrow> string list \<Rightarrow> bool \<Rightarrow> bool \<times> bool" where
  "checkDeps get [] anyDepFailed = (True, anyDepFailed)"
| "checkDeps get (dep # deps) anyDepFailed =
     (let ds = get dep
      in if ds = StepPending \<or> ds = StepRunning then (False, anyDepFailed)
         else checkDeps get deps (anyDepFailed \<or> ds = StepFailed \<or> ds = StepSkipped))"

text \<open>The switch on the run condition; an unknown condition leaves \<open>shouldRun\<close> false.\<close>

datatype decision = ShouldRun | SkipStep string | NoDecision

definition effective_condition :: "remediation_step \<Rightarrow> run_condition" where
  "effective_condition step =
     (if rs_RunCondition step = [] then RunOnSuccess else rs_RunCondition step)"

definition decide :: "remediation_step \<Rightarrow> bool \<Rightarrow> decision" where
  "decide step anyDepFailed =
     (let runCondition = effective_condition step
      in if runCondition = RunAlways then ShouldRun
         else if runCondition = RunOnFailure then
           (if anyDepFailed then ShouldRun
            else if 0 < length (rs_DependsOn step)
            then SkipStep ''Skipped (dependencies succeeded)'' else ShouldRun)
         else if runCondition = RunOnSuccess then
           (if anyDepFailed then SkipStep ''Skipped (dependency failed)'' else ShouldRun)
         else NoDecision)"

text \<open>One turn of the main loop: (allComplete, anyFailed, step table, world).\<close>

definition run_step :: "(remediation_step \<Rightarrow> action_error option) \<Rightarrow> (nat \<Rightarrow> time)
    \<Rightarrow> remediation_step \<Rightarrow> bool \<times> bool \<times> workflow_step_status list \<times> world
    \<Rightarrow> bool \<times> bool \<times> workflow_step_status list \<times> world" where
  "run_step ex clk step r =
     (case r of (allComplete, anyFailed, tbl, w) \<Rightarrow>
        let currentStatus = getStepState tbl (rs_Name step)
        in if currentStatus = StepSucceeded \<or> currentStatus = StepSkipped
              \<or> currentStatus = StepFailed
           then (allComplete, anyFailed \<or> currentStatus = StepFailed, tbl, w)
           else
             (case checkDeps (getStepState tbl) (rs_DependsOn step) False of
                (depsSatisfied, anyDepFailed) \<Rightarrow>
                  if \<not> depsSatisfied then (False, anyFailed, tbl, w)
                  else (case decide step anyDepFailed of
                      SkipStep msg \<Rightarrow>
                        (case set_status clk (rs_Name step) StepSkipped msg (tbl, w) of
                           (tbl', w') \<Rightarrow> (False, anyFailed, tbl', w'))
                    | NoDecision \<Rightarrow> (False, anyFailed, tbl, w)
                    | ShouldRun \<Rightarrow>
                        (case set_status clk (rs_Name step) StepRunning [] (tbl, w) of
                           (tbl1, w1) \<Rightarrow>
                             let w2 = w1\<lparr>wo_calls := wo_calls w1 @ [step]\<rparr>
                             in (case ex step of
                                   Some actionErr \<Rightarrow>
                                     (case set_status clk (rs_Name step) StepFailed
                                        (action_error_msg actionErr) (tbl1, w2) of
                                        (tbl3, w3) \<Rightarrow> (False, True, tbl3, w3))
                                 | None \<Rightarrow>
                                     (case set_status clk (rs_Name step) StepSucceeded
                                        ''Action completed'' (tbl1, w2) of
                                        (tbl3, w3) \<Rightarrow> (False, anyFailed, tbl3, w3)))))))"

definition run_steps :: "(remediation_step \<Rightarrow> action_error option) \<Rightarrow> (nat \<Rightarrow> time)
    \<Rightarrow> remediation_step list \<Rightarrow> workflow_step_status list \<times> world
    \<Rightarrow> bool \<times> bool \<times> workflow_step_status list \<times> world" where
  "run_steps ex clk ss tw = fold (run_step ex clk) ss (True, False, fst tw, snd tw)"

definition init_step_status :: "remediation_step \<Rightarrow> workflow_step_status" where
  "init_step_status step =
     \<lparr>ws_Name = rs_Name step, ws_State = StepPending, ws_Message = [],
      ws_StartTime = None, ws_FinishTime = None\<rparr>"

definition run_workflow :: "(remediation_step \<Rightarrow> action_error option) \<Rightarrow> (nat \<Rightarrow> time)
    \<Rightarrow> string list \<Rightarrow> remediation_workflow \<Rightarrow> workflow_execution_status \<times> world
    \<Rightarrow> (workflow_execution_status \<times> world) \<times> workflow_error option" where
  "run_workflow ex clk ks workflow sw =
     (case sw of (state, w) \<Rightarrow>
        case topologicalSort ks (rw_Steps workflow) of
          Inl e \<Rightarrow> ((state\<lparr>we_State := StepFailed\<rparr>, w), Some (DAGValidationFailed e))
        | Inr sortedSteps \<Rightarrow>
            (case (if we_State state = []
                   then (state\<lparr>we_State := StepRunning, we_StartTime := Some (clk (wo_ticks w))\<rparr>,
                         w\<lparr>wo_ticks := Suc (wo_ticks w)\<rparr>)
                   else (state, w)) of
               (state1, w1) \<Rightarrow>
                 if we_State state1 = StepSucceeded \<or> we_State state1 = StepFailed
                 then ((state1, w1), None)
                 else
                   let tbl = (if length (we_Steps state1) = 0
                              then map init_step_status sortedSteps else we_Steps state1)
                   in (case run_steps ex clk sortedSteps (tbl, w1) of
                         (allComplete, anyFailed, tbl', w') \<Rightarrow>
                           let state2 = state1\<lparr>we_Steps := tbl'\<rparr>
                           in ((if allComplete
                                then state2\<lparr>we_State := if anyFailed then StepFailed
                                                         else StepSucceeded\<rparr>
                                else state2, w'), None))))"

definition Run :: "(nat \<Rightarrow> time) \<Rightarrow> string list \<Rightarrow> check_result \<Rightarrow> remediation_workflow
    \<Rightarrow> workflow_execution_status \<times> world
    \<Rightarrow> (workflow_execution_status \<times> world) \<times> workflow_error option" where
  "Run clk ks f workflow sw = run_workflow (executeStep f) clk ks workflow sw"

section \<open>The step table keeps the table contract\<close>

lemma getStepState_absent: "n \<notin> ws_Name ` set tbl \<Longrightarrow> getStepState tbl n = StepPending"
  by (induction tbl) auto

lemma setStepStatus_names [simp]:
  "map ws_Name (fst (setStepStatus clk k n st msg tbl)) = map ws_Name tbl"
  by (induction tbl) (auto simp: Let_def split: prod.splits)

lemma setStepStatus_get_same:
  "n \<in> ws_Name ` set tbl \<Longrightarrow> getStepState (fst (setStepStatus clk k n st msg tbl)) n = st"
  by (induction tbl) (auto simp: Let_def split: prod.splits)

lemma setStepStatus_get_other:
  "m \<noteq> n \<Longrightarrow> getStepState (fst (setStepStatus clk k n st msg tbl)) m = getStepState tbl m"
  by (induction tbl) (auto simp: Let_def split: prod.splits)

interpretation step_table: keyed_store getStepState
    "\<lambda>n st tbl. fst (setStepStatus clk k n st msg tbl)" "\<lambda>tbl. ws_Name ` set tbl"
  for clk k msg
proof unfold_locales
  show "ws_Name ` set (fst (setStepStatus clk k n st msg tbl)) = ws_Name ` set tbl" for n st tbl
    by (metis list.set_map setStepStatus_names)
qed (simp_all add: setStepStatus_get_same setStepStatus_get_other)

lemma fst_set_status:
  "fst (set_status clk n st msg tw) =
     fst (setStepStatus clk (wo_ticks (snd tw)) n st msg (fst tw))"
  by (simp add: set_status_def split: prod.splits)

lemma set_status_table:
  "n \<in> ws_Name ` set (fst tw) \<Longrightarrow>
     getStepState (fst (set_status clk n st msg tw)) = (getStepState (fst tw))(n := st)"
  "map ws_Name (fst (set_status clk n st msg tw)) = map ws_Name (fst tw)"
  "wo_calls (snd (set_status clk n st msg tw)) = wo_calls (snd tw)"
  by (simp_all add: fst_set_status step_table.get_put_fun)
    (simp add: set_status_def split: prod.splits)

section \<open>The specification of a step's outcome\<close>

definition terminal :: "step_state \<Rightarrow> bool" where
  "terminal st \<longleftrightarrow> st = StepSucceeded \<or> st = StepSkipped \<or> st = StepFailed"

definition valid_condition :: "remediation_step \<Rightarrow> bool" where
  "valid_condition step \<longleftrightarrow> rs_RunCondition step \<in> {[], RunOnSuccess, RunOnFailure, RunAlways}"

definition deps_settled :: "(string \<Rightarrow> step_state) \<Rightarrow> remediation_step \<Rightarrow> bool" where
  "deps_settled g step \<longleftrightarrow> (\<forall>d \<in> set (rs_DependsOn step). g d \<noteq> StepPending \<and> g d \<noteq> StepRunning)"

definition dep_failed :: "(string \<Rightarrow> step_state) \<Rightarrow> remediation_step \<Rightarrow> bool" where
  "dep_failed g step \<longleftrightarrow> (\<exists>d \<in> set (rs_DependsOn step). g d = StepFailed \<or> g d = StepSkipped)"

text \<open>
  A step is skipped when it waits for success and a dependency failed or was skipped, or when
  it waits for a failure, has dependencies, and none of them failed or was skipped. Otherwise
  it runs, and its action decides.
\<close>

definition is_skipped :: "(string \<Rightarrow> step_state) \<Rightarrow> remediation_step \<Rightarrow> bool" where
  "is_skipped g step \<longleftrightarrow>
     (rs_RunCondition step \<in> {[], RunOnSuccess} \<and> dep_failed g step) \<or>
     (rs_RunCondition step = RunOnFailure \<and> rs_DependsOn step \<noteq> [] \<and> \<not> dep_failed g step)"

definition step_outcome :: "(remediation_step \<Rightarrow> action_error option) \<Rightarrow> (string \<Rightarrow> step_state)
    \<Rightarrow> remediation_step \<Rightarrow> step_state" where
  "step_outcome ex g step =
     (if is_skipped g step then StepSkipped
      else if ex step = None then StepSucceeded else StepFailed)"

text \<open>One turn of the loop on the statuses alone.\<close>

definition abs_step :: "(remediation_step \<Rightarrow> action_error option) \<Rightarrow> remediation_step
    \<Rightarrow> (string \<Rightarrow> step_state) \<Rightarrow> (string \<Rightarrow> step_state)" where
  "abs_step ex step g =
     (if terminal (g (rs_Name step)) \<or> \<not> deps_settled g step \<or> \<not> valid_condition step then g
      else g(rs_Name step := step_outcome ex g step))"

lemma terminal_simps [simp]:
  "terminal StepSucceeded" "terminal StepSkipped" "terminal StepFailed"
  "\<not> terminal StepPending" "\<not> terminal StepRunning"
  by (simp_all add: terminal_def)

lemma terminal_step_outcome [simp]: "terminal (step_outcome ex g step)"
  by (simp add: step_outcome_def)

lemma terminal_settled: "terminal st \<Longrightarrow> st \<noteq> StepPending \<and> st \<noteq> StepRunning"
  by (auto simp: terminal_def)

lemma checkDeps_settled:
  "fst (checkDeps g ds b) \<longleftrightarrow> (\<forall>d \<in> set ds. g d \<noteq> StepPending \<and> g d \<noteq> StepRunning)"
  "fst (checkDeps g ds b) \<Longrightarrow>
     snd (checkDeps g ds b) \<longleftrightarrow> b \<or> (\<exists>d \<in> set ds. g d = StepFailed \<or> g d = StepSkipped)"
  by (induction ds arbitrary: b) (auto simp: Let_def split: if_splits)

lemma checkDeps_result:
  obtains b where "checkDeps g (rs_DependsOn step) False = (deps_settled g step, b)"
    and "deps_settled g step \<Longrightarrow> b = dep_failed g step"
  using checkDeps_settled [of g "rs_DependsOn step" False]
  by (metis deps_settled_def dep_failed_def prod.collapse)

lemma decide_cases:
  "decide step b = NoDecision \<longleftrightarrow> \<not> valid_condition step"
  "(\<exists>msg. decide step b = SkipStep msg) \<longleftrightarrow>
     (rs_RunCondition step \<in> {[], RunOnSuccess} \<and> b) \<or>
     (rs_RunCondition step = RunOnFailure \<and> rs_DependsOn step \<noteq> [] \<and> \<not> b)"
  by (auto simp: decide_def effective_condition_def valid_condition_def Let_def)

lemma decide_skip:
  "decide step (dep_failed g step) = SkipStep msg \<Longrightarrow> is_skipped g step"
  "decide step (dep_failed g step) = ShouldRun \<Longrightarrow> \<not> is_skipped g step"
  using decide_cases(2) [of step "dep_failed g step"] by (auto simp: is_skipped_def)

text \<open>
  One turn of the code implements the abstract turn, keeps the names of the table, and
  executes the step exactly when the step was open and ends succeeded or failed.
\<close>

definition executed :: "(string \<Rightarrow> step_state) \<Rightarrow> (string \<Rightarrow> step_state) \<Rightarrow> remediation_step \<Rightarrow> bool" where
  "executed g g' step \<longleftrightarrow> \<not> terminal (g (rs_Name step)) \<and>
     (g' (rs_Name step) = StepSucceeded \<or> g' (rs_Name step) = StepFailed)"

lemma run_step_refines:
  assumes run: "run_step ex clk step (ac, af, tbl, w) = (ac', af', tbl', w')"
    and name: "rs_Name step \<in> ws_Name ` set tbl"
  defines "g \<equiv> getStepState tbl" and "g' \<equiv> getStepState tbl'"
  shows "g' = abs_step ex step g \<and> map ws_Name tbl' = map ws_Name tbl \<and>
    ac' = (ac \<and> terminal (g (rs_Name step))) \<and>
    af' = (af \<or> g' (rs_Name step) = StepFailed) \<and>
    wo_calls w' = wo_calls w @ (if executed g g' step then [step] else [])"
proof (cases "terminal (g (rs_Name step))")
  case True
  with run show ?thesis
    by (auto simp: run_step_def g_def g'_def abs_step_def executed_def terminal_def Let_def)
next
  case open_step: False
  then have cur: "\<not> (getStepState tbl (rs_Name step) = StepSucceeded \<or>
      getStepState tbl (rs_Name step) = StepSkipped \<or>
      getStepState tbl (rs_Name step) = StepFailed)"
    by (simp add: g_def terminal_def)
  obtain b where b: "checkDeps g (rs_DependsOn step) False = (deps_settled g step, b)"
    and b': "deps_settled g step \<Longrightarrow> b = dep_failed g step"
    using checkDeps_result [of g step] by blast
  show ?thesis
  proof (cases "deps_settled g step \<and> valid_condition step")
    case False
    then have "(ac', af', tbl', w') = (False, af, tbl, w)"
      using run cur b decide_cases(1) [of step b]
      by (auto simp: run_step_def g_def Let_def split: decision.splits)
    with False open_step show ?thesis
      by (auto simp: g_def g'_def abs_step_def executed_def terminal_def)
  next
    case True
    then have set: "deps_settled g step" and val: "valid_condition step" and bd: "b = dep_failed g step"
      using b' by auto
    have abs: "abs_step ex step g = g(rs_Name step := step_outcome ex g step)"
      using open_step True by (simp add: abs_step_def)
    show ?thesis
    proof (cases "decide step b")
      case NoDecision
      then show ?thesis using val decide_cases(1) by blast
    next
      case (SkipStep msg)
      then have "step_outcome ex g step = StepSkipped"
        using decide_skip(1) bd by (auto simp: step_outcome_def)
      moreover have "set_status clk (rs_Name step) StepSkipped msg (tbl, w) = (tbl', w')"
        "\<not> ac'" "af' = af"
        using run cur b set SkipStep
        by (auto simp: run_step_def g_def Let_def split: prod.splits)
      ultimately show ?thesis
        using set_status_table [where n = "rs_Name step" and tw = "(tbl, w)" and clk = clk
              and st = StepSkipped and msg = msg] name open_step abs
        by (auto simp: g_def g'_def executed_def)
    next
      case ShouldRun
      then have nskip: "\<not> is_skipped g step" using decide_skip(2) bd by auto
      obtain tbl1 w1 where s1: "set_status clk (rs_Name step) StepRunning [] (tbl, w) = (tbl1, w1)"
        by fastforce
      let ?w2 = "w1\<lparr>wo_calls := wo_calls w1 @ [step]\<rparr>"
      have t1: "getStepState tbl1 = g(rs_Name step := StepRunning)"
        "map ws_Name tbl1 = map ws_Name tbl" "wo_calls w1 = wo_calls w"
        using set_status_table [where n = "rs_Name step" and tw = "(tbl, w)" and clk = clk
            and st = StepRunning and msg = "[]"] name s1
        by (auto simp: g_def)
      have n1: "rs_Name step \<in> ws_Name ` set tbl1" using name t1(2) by (metis list.set_map)
      define msg where "msg = (case ex step of None \<Rightarrow> ''Action completed'' | Some e \<Rightarrow> action_error_msg e)"
      have out: "step_outcome ex g step = (if ex step = None then StepSucceeded else StepFailed)"
        using nskip by (simp add: step_outcome_def)
      have "set_status clk (rs_Name step) (step_outcome ex g step) msg (tbl1, ?w2) = (tbl', w')"
        "\<not> ac'" "af' = (af \<or> ex step \<noteq> None)"
        using run cur b set ShouldRun s1 out
        by (auto simp: run_step_def g_def Let_def msg_def split: prod.splits option.splits)
      then show ?thesis
        using set_status_table [where n = "rs_Name step" and tw = "(tbl1, ?w2)" and clk = clk
            and st = "step_outcome ex g step" and msg = msg]
          n1 t1 open_step abs out
        by (auto simp: g'_def executed_def)
    qed
  qed
qed

section \<open>One pass over the steps\<close>

lemma abs_step_other: "n \<noteq> rs_Name s \<Longrightarrow> abs_step ex s g n = g n"
  by (simp add: abs_step_def)

lemma fold_abs_other: "n \<notin> rs_Name ` set ss \<Longrightarrow> fold (abs_step ex) ss g n = g n"
  by (induction ss arbitrary: g) (auto simp: abs_step_other)

lemma step_names_distinct_Cons:
  "distinct (step_names (s # ss)) \<Longrightarrow> rs_Name s \<notin> rs_Name ` set ss \<and> distinct (step_names ss)"
  by (simp add: set_step_names)

lemma fold_run_step:
  assumes "fold (run_step ex clk) ss (ac, af, tbl, w) = (ac', af', tbl', w')"
    and "rs_Name ` set ss \<subseteq> ws_Name ` set tbl" and "distinct (step_names ss)"
  shows "getStepState tbl' = fold (abs_step ex) ss (getStepState tbl) \<and>
    map ws_Name tbl' = map ws_Name tbl \<and>
    ac' = (ac \<and> (\<forall>s \<in> set ss. terminal (getStepState tbl (rs_Name s)))) \<and>
    af' = (af \<or> (\<exists>s \<in> set ss. getStepState tbl' (rs_Name s) = StepFailed)) \<and>
    wo_calls w' = wo_calls w @ filter (executed (getStepState tbl) (getStepState tbl')) ss"
  using assms
proof (induction ss arbitrary: ac af tbl w)
  case Nil
  then show ?case by simp
next
  case (Cons s ss)
  obtain ac1 af1 tbl1 w1 where s1: "run_step ex clk s (ac, af, tbl, w) = (ac1, af1, tbl1, w1)"
    by (metis prod_cases4)
  let ?g = "getStepState tbl" and ?g1 = "getStepState tbl1" and ?g' = "getStepState tbl'"
  from run_step_refines [OF s1] Cons.prems(2) have r1:
    "?g1 = abs_step ex s ?g" "map ws_Name tbl1 = map ws_Name tbl"
    "ac1 = (ac \<and> terminal (?g (rs_Name s)))" "af1 = (af \<or> ?g1 (rs_Name s) = StepFailed)"
    "wo_calls w1 = wo_calls w @ (if executed ?g ?g1 s then [s] else [])" by simp_all
  have new: "rs_Name s \<notin> rs_Name ` set ss" and dist: "distinct (step_names ss)"
    using step_names_distinct_Cons [OF Cons.prems(3)] by blast+
  have "ws_Name ` set tbl1 = ws_Name ` set tbl" using r1(2) by (metis list.set_map)
  then have sub: "rs_Name ` set ss \<subseteq> ws_Name ` set tbl1" using Cons.prems(2) by simp
  have run: "fold (run_step ex clk) ss (ac1, af1, tbl1, w1) = (ac', af', tbl', w')"
    using Cons.prems(1) s1 by simp
  note IH = Cons.IH [OF run sub dist]
  have keep: "?g' (rs_Name s) = ?g1 (rs_Name s)"
    using IH fold_abs_other [OF new] by metis
  have same: "?g1 (rs_Name t) = ?g (rs_Name t)" if "t \<in> set ss" for t
    using that new r1(1) by (metis abs_step_other image_eqI)
  have "filter (executed ?g1 ?g') ss = filter (executed ?g ?g') ss"
    by (rule filter_cong) (auto simp: executed_def same)
  moreover have "executed ?g ?g' s = executed ?g ?g1 s" by (simp add: executed_def keep)
  ultimately show ?case using IH r1 keep same by auto
qed

text \<open>
  After a pass in dependency order over open steps with known conditions, every step is
  finished and its status is the specified outcome over the final statuses.
\<close>

lemma step_outcome_cong:
  "(\<And>d. d \<in> set (rs_DependsOn s) \<Longrightarrow> g d = h d) \<Longrightarrow> step_outcome ex g s = step_outcome ex h s"
  by (simp add: step_outcome_def is_skipped_def dep_failed_def)

lemma fold_abs_outcome:
  assumes "deps_first_from seen ss" and "distinct (step_names ss)"
    and "set seen \<inter> set (step_names ss) = {}"
    and "\<forall>n \<in> set seen. terminal (g n)"
    and "\<forall>s \<in> set ss. \<not> terminal (g (rs_Name s)) \<and> valid_condition s"
  shows "\<forall>s \<in> set ss. fold (abs_step ex) ss g (rs_Name s) =
    step_outcome ex (fold (abs_step ex) ss g) s"
  using assms
proof (induction ss arbitrary: seen g)
  case Nil
  then show ?case by simp
next
  case (Cons s ss)
  let ?g1 = "abs_step ex s g"
  let ?g' = "fold (abs_step ex) ss ?g1"
  have deps: "\<forall>d \<in> set (rs_DependsOn s). d \<in> set seen" and first: "deps_first_from (rs_Name s # seen) ss"
    using Cons.prems(1) by simp_all
  have new: "rs_Name s \<notin> rs_Name ` set ss" and dist: "distinct (step_names ss)"
    using step_names_distinct_Cons [OF Cons.prems(2)] by blast+
  have "deps_settled g s"
    using deps Cons.prems(4) terminal_settled by (auto simp: deps_settled_def)
  then have g1: "?g1 = g(rs_Name s := step_outcome ex g s)"
    using Cons.prems(5) by (simp add: abs_step_def)
  have disj: "set (rs_Name s # seen) \<inter> set (step_names ss) = {}"
    using Cons.prems(3) new by (auto simp: set_step_names)
  have term1: "\<forall>n \<in> set (rs_Name s # seen). terminal (?g1 n)"
    using Cons.prems(4) by (auto simp: g1)
  have open1: "\<forall>t \<in> set ss. \<not> terminal (?g1 (rs_Name t)) \<and> valid_condition t"
    using Cons.prems(5) new by (auto simp: g1 image_iff)
  have rest: "\<forall>t \<in> set ss. ?g' (rs_Name t) = step_outcome ex ?g' t"
    by (rule Cons.IH [OF first dist disj term1 open1])
  have keep: "?g' (rs_Name s) = step_outcome ex g s"
    using fold_abs_other [OF new] by (simp add: g1)
  have "g d = ?g' d" if "d \<in> set (rs_DependsOn s)" for d
  proof -
    have "d \<in> set seen" using deps that by blast
    then have "d \<noteq> rs_Name s" "d \<notin> rs_Name ` set ss"
      using Cons.prems(3) by (auto simp: set_step_names)
    then show ?thesis using fold_abs_other [of d ss] by (simp add: g1)
  qed
  then have "step_outcome ex g s = step_outcome ex ?g' s" by (rule step_outcome_cong)
  with keep rest show ?case by simp
qed

text \<open>The outcome equations have one solution on a valid workflow.\<close>

lemma outcome_unique_from:
  assumes "deps_first_from seen ss" and "\<forall>n \<in> set seen. g n = h n"
    and "\<forall>s \<in> set ss. g (rs_Name s) = step_outcome ex g s"
    and "\<forall>s \<in> set ss. h (rs_Name s) = step_outcome ex h s"
  shows "\<forall>s \<in> set ss. g (rs_Name s) = h (rs_Name s)"
  using assms
proof (induction ss arbitrary: seen)
  case Nil
  then show ?case by simp
next
  case (Cons s ss)
  have "step_outcome ex g s = step_outcome ex h s"
    by (rule step_outcome_cong) (use Cons.prems(1,2) in auto)
  then have "g (rs_Name s) = h (rs_Name s)" using Cons.prems(3,4) by simp
  moreover from this have "\<forall>t \<in> set ss. g (rs_Name t) = h (rs_Name t)"
    using Cons.IH [of "rs_Name s # seen"] Cons.prems by simp
  ultimately show ?case by simp
qed

section \<open>One run of a workflow\<close>

lemma getStepState_init [simp]: "getStepState (map init_step_status ss) n = StepPending"
  by (induction ss) (auto simp: init_step_status_def)

lemma names_init [simp]: "map ws_Name (map init_step_status ss) = step_names ss"
  by (induction ss) (auto simp: init_step_status_def)

definition active_table :: "remediation_step list \<Rightarrow> workflow_execution_status
    \<Rightarrow> workflow_step_status list" where
  "active_table out state =
     (if we_Steps state = [] then map init_step_status out else we_Steps state)"

lemma run_workflow_invalid:
  assumes "range_order (tm_inDegree (topo_build (rw_Steps workflow))) ks"
    and "\<not> valid_dag (rw_Steps workflow)"
  shows "run_workflow ex clk ks workflow (state, w) =
    ((state\<lparr>we_State := StepFailed\<rparr>, w), Some (DAGValidationFailed CycleDetected))"
proof -
  have "topologicalSort ks (rw_Steps workflow) = Inl CycleDetected"
  proof (rule topologicalSort_cases [OF assms(1)])
    fix deg out assume "topo_inv (rw_Steps workflow) deg [] out"
      and run: "topologicalSort ks (rw_Steps workflow) =
        (if length out = length (rw_Steps workflow) then Inr out else Inl CycleDetected)"
    then have "length out \<noteq> length (rw_Steps workflow)" using topo_sound assms(2) by blast
    with run show ?thesis by simp
  qed
  then show ?thesis by (simp add: run_workflow_def)
qed

lemma valid_sorted:
  assumes "range_order (tm_inDegree (topo_build steps)) ks" and "valid_dag steps"
  obtains out where "topologicalSort ks steps = Inr out" "set out = set steps"
    "deps_first out" "distinct (step_names out)" "mset out = mset steps"
proof (rule topologicalSort_cases [OF assms(1)])
  fix deg out assume inv: "topo_inv steps deg [] out"
    and run: "topologicalSort ks steps =
      (if length out = length steps then Inr out else Inl CycleDetected)"
  have len: "length out = length steps" using topo_complete [OF inv assms(2)] .
  then have "mset out = mset steps" using sorted_all_mset [OF inv] by blast
  moreover from this have "set out = set steps" by (metis set_mset_mset)
  ultimately show ?thesis using that [of out] run len inv by (simp add: topo_inv_def)
qed

lemma run_workflow_terminal:
  assumes "topologicalSort ks (rw_Steps workflow) = Inr out"
    and "we_State state = StepSucceeded \<or> we_State state = StepFailed"
  shows "run_workflow ex clk ks workflow (state, w) = ((state, w), None)"
  using assms by (auto simp: run_workflow_def)

text \<open>A run of an unfinished execution of a valid workflow is one pass over its sorted steps.\<close>

lemma run_workflow_pass:
  assumes topo: "topologicalSort ks (rw_Steps workflow) = Inr out" "distinct (step_names out)"
    and active: "we_State state \<noteq> StepSucceeded" "we_State state \<noteq> StepFailed"
    and names: "set (step_names out) \<subseteq> ws_Name ` set (active_table out state)"
    and run: "run_workflow ex clk ks workflow (state, w) = ((state', w'), e)"
  defines "g \<equiv> getStepState (active_table out state)"
    and "g' \<equiv> getStepState (we_Steps state')"
  shows "e = None \<and> g' = fold (abs_step ex) out g \<and>
    map ws_Name (we_Steps state') = map ws_Name (active_table out state) \<and>
    we_State state' = (if \<forall>s \<in> set out. terminal (g (rs_Name s))
      then (if \<exists>s \<in> set out. g' (rs_Name s) = StepFailed then StepFailed else StepSucceeded)
      else if we_State state = [] then StepRunning else we_State state) \<and>
    wo_calls w' = wo_calls w @ filter (executed g g') out"
proof -
  define state1 where "state1 = (if we_State state = [] then
    state\<lparr>we_State := StepRunning, we_StartTime := Some (clk (wo_ticks w))\<rparr> else state)"
  define w1 where "w1 = (if we_State state = [] then w\<lparr>wo_ticks := Suc (wo_ticks w)\<rparr> else w)"
  have tbl: "(if length (we_Steps state1) = 0 then map init_step_status out
      else we_Steps state1) = active_table out state"
    by (simp add: state1_def active_table_def)
  obtain ac af tbl' w2 where pass:
    "fold (run_step ex clk) out (True, False, active_table out state, w1) = (ac, af, tbl', w2)"
    by (metis prod_cases4)
  have steps: "run_steps ex clk out (active_table out state, w1) = (ac, af, tbl', w2)"
    using pass by (simp add: run_steps_def)
  have "\<not> (we_State state1 = StepSucceeded \<or> we_State state1 = StepFailed)"
    using active by (simp add: state1_def)
  moreover have "(if we_State state = []
      then (state\<lparr>we_State := StepRunning, we_StartTime := Some (clk (wo_ticks w))\<rparr>,
        w\<lparr>wo_ticks := Suc (wo_ticks w)\<rparr>)
      else (state, w)) = (state1, w1)"
    by (simp add: state1_def w1_def)
  ultimately have "((state', w'), e) =
      ((if ac then state1\<lparr>we_Steps := tbl', we_State := if af then StepFailed else StepSucceeded\<rparr>
        else state1\<lparr>we_Steps := tbl'\<rparr>, w2), None)"
    using run topo(1) steps tbl by (simp add: run_workflow_def Let_def)
  then have res: "e = None" "we_Steps state' = tbl'" "w' = w2"
    "we_State state' = (if ac then (if af then StepFailed else StepSucceeded) else we_State state1)"
    by (auto split: if_splits)
  have "wo_calls w1 = wo_calls w" by (simp add: w1_def)
  then show ?thesis
    using fold_run_step [OF pass _ topo(2)] names res
    by (auto simp: g_def g'_def set_step_names state1_def)
qed

section \<open>Executions: any number of runs\<close>

text \<open>
  \<^verbatim>\<open>Run\<close> is one iteration: its comment in the source says that the reconcile loop
  is to call it on the persisted status until the workflow is done. Nothing in the source calls it
  yet, so an execution here is any number of calls, each with some clock and some order of
  the map range.
\<close>

definition fresh_execution :: "workflow_execution_status \<times> world \<Rightarrow> bool" where
  "fresh_execution sw \<longleftrightarrow>
     we_State (fst sw) = [] \<and> we_Steps (fst sw) = [] \<and> wo_calls (snd sw) = []"

inductive workflow_step :: "(remediation_step \<Rightarrow> action_error option) \<Rightarrow> remediation_workflow
    \<Rightarrow> workflow_execution_status \<times> world \<Rightarrow> workflow_execution_status \<times> world \<Rightarrow> bool"
  for ex :: "remediation_step \<Rightarrow> action_error option" and workflow :: remediation_workflow where
  iterate: "range_order (tm_inDegree (topo_build (rw_Steps workflow))) ks \<Longrightarrow>
    run_workflow ex clk ks workflow sw = (sw', e) \<Longrightarrow> workflow_step ex workflow sw sw'"

lemma workflow_step_run:
  "range_order (tm_inDegree (topo_build (rw_Steps workflow))) ks \<Longrightarrow>
     workflow_step ex workflow sw (fst (run_workflow ex clk ks workflow sw))"
  by (rule workflow_step.iterate [where clk = clk and e = "snd (run_workflow ex clk ks workflow sw)"])
    simp_all

inductive_cases workflow_stepE [elim]: "workflow_step ex workflow sw sw'"

text \<open>
  Finished steps carry the outcome the specification gives them, and nothing finishes before
  its dependencies; open steps are pending (no step is left running by a synchronous run).
\<close>

definition consistent :: "(remediation_step \<Rightarrow> action_error option) \<Rightarrow> remediation_step list
    \<Rightarrow> (string \<Rightarrow> step_state) \<Rightarrow> bool" where
  "consistent ex steps g \<longleftrightarrow> (\<forall>s \<in> set steps.
     if terminal (g (rs_Name s))
     then deps_settled g s \<and> valid_condition s \<and> g (rs_Name s) = step_outcome ex g s
     else g (rs_Name s) = StepPending)"

lemma deps_settled_upd:
  "g n = StepPending \<Longrightarrow> deps_settled g s \<Longrightarrow>
     deps_settled (g(n := v)) s \<and> step_outcome ex (g(n := v)) s = step_outcome ex g s"
  by (auto simp: deps_settled_def intro!: step_outcome_cong)

lemma consistent_abs_step:
  assumes "consistent ex steps g" and "s \<in> set steps" and "distinct (step_names steps)"
  shows "consistent ex steps (abs_step ex s g)"
proof (cases "terminal (g (rs_Name s)) \<or> \<not> deps_settled g s \<or> \<not> valid_condition s")
  case True
  then show ?thesis using assms(1) by (simp add: abs_step_def)
next
  case False
  let ?n = "rs_Name s"
  have pend: "g ?n = StepPending" using assms(1,2) False by (auto simp: consistent_def)
  have abs: "abs_step ex s g = g(?n := step_outcome ex g s)" using False by (simp add: abs_step_def)
  note upd = deps_settled_upd [of g ?n, OF pend]
  have "if terminal ((g(?n := step_outcome ex g s)) (rs_Name t))
      then deps_settled (g(?n := step_outcome ex g s)) t \<and> valid_condition t \<and>
        (g(?n := step_outcome ex g s)) (rs_Name t) = step_outcome ex (g(?n := step_outcome ex g s)) t
      else (g(?n := step_outcome ex g s)) (rs_Name t) = StepPending" if t: "t \<in> set steps" for t
  proof (cases "rs_Name t = ?n")
    case True
    then have "t = s" using step_names_inj [OF assms(3) t assms(2)] by simp
    then show ?thesis using upd [of s "step_outcome ex g s" ex] False by simp
  next
    case other: False
    have "if terminal (g (rs_Name t))
        then deps_settled g t \<and> valid_condition t \<and> g (rs_Name t) = step_outcome ex g t
        else g (rs_Name t) = StepPending"
      using assms(1) t unfolding consistent_def by blast
    then show ?thesis using upd [of t "step_outcome ex g s" ex] other
      by (auto split: if_splits)
  qed
  then show ?thesis unfolding abs consistent_def by blast
qed

lemma consistent_fold:
  "consistent ex steps g \<Longrightarrow> set ss \<subseteq> set steps \<Longrightarrow> distinct (step_names steps) \<Longrightarrow>
     consistent ex steps (fold (abs_step ex) ss g)"
  by (induction ss arbitrary: g) (auto intro: consistent_abs_step)

lemma abs_step_terminal: "terminal (g n) \<Longrightarrow> abs_step ex s g n = g n"
  by (auto simp: abs_step_def)

lemma fold_abs_terminal: "terminal (g n) \<Longrightarrow> fold (abs_step ex) ss g n = g n"
  by (induction ss arbitrary: g) (auto simp: abs_step_terminal)

definition workflow_inv :: "(remediation_step \<Rightarrow> action_error option) \<Rightarrow> remediation_workflow
    \<Rightarrow> workflow_execution_status \<times> world \<Rightarrow> bool" where
  "workflow_inv ex workflow sw \<longleftrightarrow>
     (let steps = rw_Steps workflow; g = getStepState (we_Steps (fst sw)); calls = wo_calls (snd sw)
      in fresh_execution sw \<or>
         (mset (map ws_Name (we_Steps (fst sw))) = mset (step_names steps) \<and>
          we_State (fst sw) \<in> {StepRunning, StepSucceeded, StepFailed} \<and>
          (we_State (fst sw) \<noteq> StepRunning \<longrightarrow>
             (\<forall>s \<in> set steps. terminal (g (rs_Name s))) \<and>
             (we_State (fst sw) = StepFailed \<longleftrightarrow> (\<exists>s \<in> set steps. g (rs_Name s) = StepFailed))) \<and>
          consistent ex steps g \<and>
          set calls \<subseteq> set steps \<and> distinct (step_names calls) \<and>
          (\<forall>c \<in> set calls. terminal (g (rs_Name c)))))"

lemma workflow_inv_run:
  assumes dag: "valid_dag (rw_Steps workflow)" and inv: "workflow_inv ex workflow (state, w)"
    and ord: "range_order (tm_inDegree (topo_build (rw_Steps workflow))) ks"
    and run: "run_workflow ex clk ks workflow (state, w) = ((state', w'), e)"
  shows "workflow_inv ex workflow (state', w') \<and> e = None"
proof -
  let ?steps = "rw_Steps workflow"
  obtain out where out: "topologicalSort ks ?steps = Inr out" "set out = set ?steps"
    "distinct (step_names out)" "mset out = mset ?steps"
    using valid_sorted [OF ord dag] by metis
  have dist: "distinct (step_names ?steps)" using dag by (simp add: valid_dag_def)
  have mnames: "mset (step_names out) = mset (step_names ?steps)"
    using out(4) by (simp add: step_names_def)
  show ?thesis
  proof (cases "we_State state = StepSucceeded \<or> we_State state = StepFailed")
    case True
    then show ?thesis using run_workflow_terminal [OF out(1) True] run inv by simp
  next
    case False
    let ?tbl = "active_table out state"
    let ?g = "getStepState ?tbl" and ?g' = "getStepState (we_Steps state')"
    have tbl: "mset (map ws_Name ?tbl) = mset (step_names ?steps)"
      and st: "we_State state = [] \<or> we_State state = StepRunning"
      and cons: "consistent ex ?steps ?g"
      and calls: "set (wo_calls w) \<subseteq> set ?steps" "distinct (step_names (wo_calls w))"
        "\<forall>c \<in> set (wo_calls w). terminal (?g (rs_Name c))"
    proof -
      have "mset (map ws_Name ?tbl) = mset (step_names ?steps) \<and>
          (we_State state = [] \<or> we_State state = StepRunning) \<and> consistent ex ?steps ?g \<and>
          set (wo_calls w) \<subseteq> set ?steps \<and> distinct (step_names (wo_calls w)) \<and>
          (\<forall>c \<in> set (wo_calls w). terminal (?g (rs_Name c)))"
      proof (cases "fresh_execution (state, w)")
        case True
        then show ?thesis
          using mnames by (simp add: fresh_execution_def active_table_def consistent_def
              del: map_map mset_map)
      next
        case nf: False
        then have "we_Steps state = [] \<Longrightarrow> ?steps = []"
          using inv by (auto simp: workflow_inv_def Let_def step_names_def)
        then have "?tbl = we_Steps state"
          using out(2) by (auto simp: active_table_def)
        with nf False inv show ?thesis by (auto simp: workflow_inv_def Let_def)
      qed
      then show "mset (map ws_Name ?tbl) = mset (step_names ?steps)"
        "we_State state = [] \<or> we_State state = StepRunning" "consistent ex ?steps ?g"
        "set (wo_calls w) \<subseteq> set ?steps" "distinct (step_names (wo_calls w))"
        "\<forall>c \<in> set (wo_calls w). terminal (?g (rs_Name c))" by blast+
    qed
    have names: "set (step_names out) \<subseteq> ws_Name ` set ?tbl"
      using tbl mnames by (metis list.set_map set_mset_mset subset_refl)
    have st': "we_State state \<noteq> StepSucceeded" "we_State state \<noteq> StepFailed" using False by auto
    note pass = run_workflow_pass [OF out(1,3) st' names run]
    have g': "?g' = fold (abs_step ex) out ?g" using pass by blast
    have keep: "?g' n = ?g n" if "terminal (?g n)" for n
      using that fold_abs_terminal g' by metis
    have cons': "consistent ex ?steps ?g'"
      using consistent_fold [OF cons _ dist, of out] out(2) g' by simp
    have calls': "wo_calls w' = wo_calls w @ filter (executed ?g ?g') out" using pass by blast
    have "distinct (step_names (wo_calls w'))"
    proof -
      have "distinct (step_names (filter (executed ?g ?g') out))"
        using out(3) by (simp add: step_names_def distinct_map_filter)
      moreover have "set (step_names (wo_calls w)) \<inter> set (step_names (filter (executed ?g ?g') out)) = {}"
        using calls(3) by (auto simp: set_step_names executed_def)
      ultimately show ?thesis using calls(2) calls' by simp
    qed
    moreover have "set (wo_calls w') \<subseteq> set ?steps" using calls(1) calls' out(2) by auto
    moreover have "\<forall>c \<in> set (wo_calls w'). terminal (?g' (rs_Name c))"
      using calls(3) keep by (auto simp: calls' executed_def)
    moreover have "mset (map ws_Name (we_Steps state')) = mset (step_names ?steps)"
      using pass tbl by metis
    moreover have "we_State state' \<in> {StepRunning, StepSucceeded, StepFailed} \<and>
        (we_State state' \<noteq> StepRunning \<longrightarrow>
          (\<forall>s \<in> set ?steps. terminal (?g' (rs_Name s))) \<and>
          (we_State state' = StepFailed \<longleftrightarrow> (\<exists>s \<in> set ?steps. ?g' (rs_Name s) = StepFailed)))"
    proof (cases "\<forall>s \<in> set out. terminal (?g (rs_Name s))")
      case True
      then have "\<forall>s \<in> set ?steps. terminal (?g' (rs_Name s))" using keep out(2) by metis
      moreover have "we_State state' =
          (if \<exists>s \<in> set ?steps. ?g' (rs_Name s) = StepFailed then StepFailed else StepSucceeded)"
        using pass True out(2) by simp
      ultimately show ?thesis by simp
    next
      case some_open: False
      then have "we_State state' = StepRunning" using pass st by auto
      then show ?thesis by simp
    qed
    ultimately have "workflow_inv ex workflow (state', w')"
      using cons' by (simp add: workflow_inv_def)
    then show ?thesis using pass by blast
  qed
qed

interpretation execution: inductive_invariant fresh_execution "workflow_step ex workflow"
    "\<lambda>sw. valid_dag (rw_Steps workflow) \<longrightarrow> workflow_inv ex workflow sw"
  for ex workflow
proof
  show "fresh_execution s \<Longrightarrow> valid_dag (rw_Steps workflow) \<longrightarrow> workflow_inv ex workflow s" for s
    by (simp add: workflow_inv_def)
  show "valid_dag (rw_Steps workflow) \<longrightarrow> workflow_inv ex workflow t"
    if "valid_dag (rw_Steps workflow) \<longrightarrow> workflow_inv ex workflow s"
      and "workflow_step ex workflow s t" for s t
    using that workflow_inv_run by (metis prod.collapse workflow_stepE)
qed

section \<open>Completion\<close>

lemma active_fresh [simp]:
  "fresh_execution (state, w) \<Longrightarrow> active_table out state = map init_step_status out"
  by (simp add: fresh_execution_def active_table_def)

text \<open>The first run of a valid workflow with known conditions finishes every step.\<close>

lemma first_run:
  assumes dag: "valid_dag (rw_Steps workflow)"
    and conds: "\<forall>s \<in> set (rw_Steps workflow). valid_condition s"
    and ord: "range_order (tm_inDegree (topo_build (rw_Steps workflow))) ks"
    and fresh: "fresh_execution (state, w)"
    and run: "run_workflow ex clk ks workflow (state, w) = ((state', w'), e)"
  shows "e = None \<and> (\<forall>s \<in> set (rw_Steps workflow).
      getStepState (we_Steps state') (rs_Name s) =
        step_outcome ex (getStepState (we_Steps state')) s) \<and>
    we_State state' = (if rw_Steps workflow = [] then StepSucceeded else StepRunning) \<and>
    mset (map ws_Name (we_Steps state')) = mset (step_names (rw_Steps workflow))"
proof -
  let ?steps = "rw_Steps workflow"
  obtain out where out: "topologicalSort ks ?steps = Inr out" "set out = set ?steps"
    "deps_first out" "distinct (step_names out)" "mset out = mset ?steps"
    using valid_sorted [OF ord dag] by metis
  let ?g = "getStepState (map init_step_status out)"
  have st: "we_State state = []" using fresh by (simp add: fresh_execution_def)
  have tbl: "active_table out state = map init_step_status out" using fresh by simp
  have "ws_Name ` set (map init_step_status out) = set (step_names out)"
    by (metis list.set_map names_init)
  then have names: "set (step_names out) \<subseteq> ws_Name ` set (active_table out state)"
    unfolding tbl by simp
  have pass: "e = None" "getStepState (we_Steps state') = fold (abs_step ex) out ?g"
    "map ws_Name (we_Steps state') = step_names out"
    "we_State state' = (if \<forall>s \<in> set out. terminal (?g (rs_Name s))
      then (if \<exists>s \<in> set out. getStepState (we_Steps state') (rs_Name s) = StepFailed
        then StepFailed else StepSucceeded) else StepRunning)"
    using run_workflow_pass [OF out(1,4) _ _ names run] st
    by (simp_all add: tbl del: map_map)
  have "\<forall>s \<in> set out. fold (abs_step ex) out ?g (rs_Name s) =
      step_outcome ex (fold (abs_step ex) out ?g) s"
    using out conds by (intro fold_abs_outcome [of "[]"]) (simp_all add: deps_first_def)
  moreover have "we_State state' = (if ?steps = [] then StepSucceeded else StepRunning)"
    using pass(4) out(2) by auto
  moreover have "mset (step_names out) = mset (step_names ?steps)"
    using out(5) by (simp add: step_names_def)
  ultimately show ?thesis using pass out(2) by simp
qed

lemma second_run:
  assumes dag: "valid_dag (rw_Steps workflow)"
    and ord: "range_order (tm_inDegree (topo_build (rw_Steps workflow))) ks"
    and tbl: "mset (map ws_Name (we_Steps state)) = mset (step_names (rw_Steps workflow))"
    and fin: "\<forall>s \<in> set (rw_Steps workflow). terminal (getStepState (we_Steps state) (rs_Name s))"
    and st: "we_State state = (if rw_Steps workflow = [] then StepSucceeded else StepRunning)"
    and run: "run_workflow ex clk ks workflow (state, w) = ((state', w'), e)"
  shows "e = None \<and> wo_calls w' = wo_calls w \<and>
    (\<forall>s \<in> set (rw_Steps workflow). getStepState (we_Steps state') (rs_Name s) =
       getStepState (we_Steps state) (rs_Name s)) \<and>
    we_State state' = (if \<exists>s \<in> set (rw_Steps workflow).
      getStepState (we_Steps state) (rs_Name s) = StepFailed then StepFailed else StepSucceeded)"
proof -
  let ?steps = "rw_Steps workflow"
  obtain out where out: "topologicalSort ks ?steps = Inr out" "set out = set ?steps"
    "deps_first out" "distinct (step_names out)" "mset out = mset ?steps"
    using valid_sorted [OF ord dag] by metis
  show ?thesis
  proof (cases "?steps = []")
    case True
    then show ?thesis using run_workflow_terminal [OF out(1)] st run by simp
  next
    case False
    then have "we_Steps state \<noteq> []" using tbl by (auto simp: step_names_def)
    then have act: "active_table out state = we_Steps state" by (simp add: active_table_def)
    have "set (step_names out) = ws_Name ` set (we_Steps state)"
      using tbl out(2) by (metis list.set_map set_mset_mset set_step_names)
    then have names: "set (step_names out) \<subseteq> ws_Name ` set (active_table out state)"
      by (simp add: act)
    let ?g = "getStepState (we_Steps state)" and ?g' = "getStepState (we_Steps state')"
    have fin': "\<forall>s \<in> set out. terminal (?g (rs_Name s))" using fin out(2) by simp
    have pass: "e = None" "?g' = fold (abs_step ex) out ?g"
      "we_State state' = (if \<exists>s \<in> set out. ?g' (rs_Name s) = StepFailed
        then StepFailed else StepSucceeded)"
      "wo_calls w' = wo_calls w @ filter (executed ?g ?g') out"
      using run_workflow_pass [OF out(1,4) _ _ names run] st False fin' by (simp_all add: act)
    have keep: "\<forall>s \<in> set out. ?g' (rs_Name s) = ?g (rs_Name s)"
      using fin' fold_abs_terminal pass(2) by metis
    have "filter (executed ?g ?g') out = []"
      using fin' by (auto simp: filter_empty_conv executed_def)
    with pass keep out(2) show ?thesis by simp
  qed
qed

section \<open>Properties\<close>

text \<open>The repository's test case of a failing step with downstream OnFailure and Always steps.\<close>

definition test_workflow :: remediation_workflow where
  "test_workflow = \<lparr>rw_Steps = [mk_step ''step1'' [] [],
     mk_step ''step2'' [''step1''] RunOnFailure, mk_step ''step3'' [''step2''] RunAlways]\<rparr>"

definition test_engine :: "remediation_step \<Rightarrow> action_error option" where
  "test_engine step = (if rs_Action step = ''step1'' then Some MissingCommand else None)"

definition fresh_status :: workflow_execution_status where
  "fresh_status = \<lparr>we_ID = [], we_WorkflowName = [], we_TargetResource = [], we_State = [],
     we_Steps = [], we_StartTime = None\<rparr>"

definition fresh_world :: world where
  "fresh_world = \<lparr>wo_ticks = 0, wo_calls = []\<rparr>"

definition test_run :: "(workflow_execution_status \<times> world) \<times> workflow_error option" where
  "test_run = run_workflow test_engine int [''step1'', ''step2'', ''step3''] test_workflow
     (fresh_status, fresh_world)"

lemma fresh_example: "fresh_execution (fresh_status, fresh_world)"
  by (simp add: fresh_execution_def fresh_status_def fresh_world_def)

lemma test_conditions: "\<forall>s \<in> set (rw_Steps test_workflow). valid_condition s"
  by (simp add: test_workflow_def valid_condition_def mk_step_def)

lemma test_range:
  "range_order (tm_inDegree (topo_build (rw_Steps test_workflow))) [''step1'', ''step2'', ''step3'']"
  by (auto simp: topo_eval mk_step_def test_workflow_def)

lemma test_sorted: "topologicalSort [''step1'', ''step2'', ''step3''] (rw_Steps test_workflow) =
    Inr (rw_Steps test_workflow)"
  by (simp add: topo_eval mk_step_def test_workflow_def)

lemma test_dag: "valid_dag (rw_Steps test_workflow)"
  by (rule topologicalSort_valid [OF test_range test_sorted])

text \<open>
  C2. Two runs complete a valid workflow whose run conditions are known: whatever the orders
  of the map range and the clocks, neither run fails, every step ends with the outcome the
  specification computes from the outcomes of its dependencies, and the workflow ends Failed
  if a step failed and Succeeded otherwise.
\<close>
theorem workflow_two_runs:
  fixes ex :: "remediation_step \<Rightarrow> action_error option" and clk1 clk2 :: "nat \<Rightarrow> time"
  assumes "valid_dag (rw_Steps workflow)"
    and "\<forall>s \<in> set (rw_Steps workflow). valid_condition s"
    and "range_order (tm_inDegree (topo_build (rw_Steps workflow))) ks1"
    and "range_order (tm_inDegree (topo_build (rw_Steps workflow))) ks2"
    and "fresh_execution sw"
  defines "r1 \<equiv> run_workflow ex clk1 ks1 workflow sw"
  defines "r2 \<equiv> run_workflow ex clk2 ks2 workflow (fst r1)"
  defines "final \<equiv> fst (fst r2)"
  shows "snd r1 = None \<and> snd r2 = None \<and>
    (\<forall>s \<in> set (rw_Steps workflow). getStepState (we_Steps final) (rs_Name s) =
       step_outcome ex (getStepState (we_Steps final)) s) \<and>
    we_State final = (if \<exists>s \<in> set (rw_Steps workflow).
      getStepState (we_Steps final) (rs_Name s) = StepFailed then StepFailed else StepSucceeded)"
proof -
  obtain st w where sw: "sw = (st, w)" by fastforce
  obtain st1 w1 e1 where r1: "run_workflow ex clk1 ks1 workflow (st, w) = ((st1, w1), e1)"
    by (metis prod.collapse)
  obtain st2 w2 e2 where r2: "run_workflow ex clk2 ks2 workflow (st1, w1) = ((st2, w2), e2)"
    by (metis prod.collapse)
  let ?g1 = "getStepState (we_Steps st1)" and ?g2 = "getStepState (we_Steps st2)"
  have one: "e1 = None" "\<forall>s \<in> set (rw_Steps workflow). ?g1 (rs_Name s) = step_outcome ex ?g1 s"
    "we_State st1 = (if rw_Steps workflow = [] then StepSucceeded else StepRunning)"
    "mset (map ws_Name (we_Steps st1)) = mset (step_names (rw_Steps workflow))"
    using first_run [OF assms(1-3) _ r1] assms(5) sw by simp_all
  have fin: "\<forall>s \<in> set (rw_Steps workflow). terminal (?g1 (rs_Name s))"
    using one(2) by simp
  have two: "e2 = None"
    "\<forall>s \<in> set (rw_Steps workflow). ?g2 (rs_Name s) = ?g1 (rs_Name s)"
    "we_State st2 = (if \<exists>s \<in> set (rw_Steps workflow). ?g1 (rs_Name s) = StepFailed
       then StepFailed else StepSucceeded)"
    using second_run [OF assms(1,4) one(4) fin one(3) r2] by simp_all
  have "step_outcome ex ?g2 s = step_outcome ex ?g1 s" if s: "s \<in> set (rw_Steps workflow)" for s
  proof (rule step_outcome_cong)
    fix d assume "d \<in> set (rs_DependsOn s)"
    then have "d \<in> set (step_names (rw_Steps workflow))"
      using assms(1) s by (auto simp: valid_dag_def)
    then show "?g2 d = ?g1 d" using two(2) by (auto simp: set_step_names)
  qed
  then show ?thesis using one two by (simp add: r1_def r2_def final_def sw r1 r2)
qed

theorem workflow_two_runs_witness:
  "snd (run_workflow test_engine int [''step1'', ''step2'', ''step3''] test_workflow
     (fresh_status, fresh_world)) = None"
  using workflow_two_runs [OF test_dag test_conditions test_range test_range fresh_example,
    of test_engine int int] by blast

text \<open>
  The result does not depend on Go's map iteration order or on the clock: two executions of
  the same valid workflow from fresh states end with the same status for every step and the
  same overall state.
\<close>
theorem workflow_deterministic:
  fixes ex :: "remediation_step \<Rightarrow> action_error option" and clk clk' :: "nat \<Rightarrow> time"
  assumes "valid_dag (rw_Steps workflow)"
    and "\<forall>s \<in> set (rw_Steps workflow). valid_condition s"
    and "range_order (tm_inDegree (topo_build (rw_Steps workflow))) ks"
    and "range_order (tm_inDegree (topo_build (rw_Steps workflow))) ks'"
    and "fresh_execution sw" and "fresh_execution sw'"
  defines "st \<equiv> fst (fst (run_workflow ex clk ks workflow sw))"
  defines "st' \<equiv> fst (fst (run_workflow ex clk' ks' workflow sw'))"
  shows "we_State st = we_State st' \<and>
    (\<forall>n. getStepState (we_Steps st) n = getStepState (we_Steps st') n)"
proof -
  obtain s0 w0 s0' w0' where sw: "sw = (s0, w0)" "sw' = (s0', w0')" by (metis prod.collapse)
  obtain w1 e1 where r1: "run_workflow ex clk ks workflow (s0, w0) = ((st, w1), e1)"
    unfolding st_def sw by (metis prod.collapse)
  obtain w1' e1' where r1': "run_workflow ex clk' ks' workflow (s0', w0') = ((st', w1'), e1')"
    unfolding st'_def sw by (metis prod.collapse)
  let ?g = "getStepState (we_Steps st)" and ?g' = "getStepState (we_Steps st')"
  have one: "\<forall>s \<in> set (rw_Steps workflow). ?g (rs_Name s) = step_outcome ex ?g s"
    "we_State st = (if rw_Steps workflow = [] then StepSucceeded else StepRunning)"
    "mset (map ws_Name (we_Steps st)) = mset (step_names (rw_Steps workflow))"
    using first_run [OF assms(1-3) _ r1] assms(5) sw by simp_all
  have two: "\<forall>s \<in> set (rw_Steps workflow). ?g' (rs_Name s) = step_outcome ex ?g' s"
    "we_State st' = (if rw_Steps workflow = [] then StepSucceeded else StepRunning)"
    "mset (map ws_Name (we_Steps st')) = mset (step_names (rw_Steps workflow))"
    using first_run [OF assms(1,2,4) _ r1'] assms(6) sw by simp_all
  obtain out where out: "set out = set (rw_Steps workflow)" "deps_first out"
    using valid_sorted [OF assms(3,1)] by metis
  have eq: "\<forall>s \<in> set (rw_Steps workflow). ?g (rs_Name s) = ?g' (rs_Name s)"
    using outcome_unique_from [of "[]" out ?g ?g' ex] out one(1) two(1)
    by (simp add: deps_first_def)
  have "?g n = ?g' n" for n
  proof (cases "n \<in> set (step_names (rw_Steps workflow))")
    case True
    then show ?thesis using eq by (auto simp: set_step_names)
  next
    case False
    then have "n \<notin> ws_Name ` set (we_Steps st)" "n \<notin> ws_Name ` set (we_Steps st')"
      using one(3) two(3) by (metis list.set_map set_mset_mset)+
    then show ?thesis by (simp add: getStepState_absent)
  qed
  then show ?thesis using one(2) two(2) by simp
qed

lemma test_range_rev:
  "range_order (tm_inDegree (topo_build (rw_Steps test_workflow))) [''step3'', ''step2'', ''step1'']"
  by (auto simp: topo_eval mk_step_def test_workflow_def)

theorem workflow_deterministic_witness:
  "we_State (fst (fst (run_workflow test_engine int [''step1'', ''step2'', ''step3'']
      test_workflow (fresh_status, fresh_world)))) =
   we_State (fst (fst (run_workflow test_engine (\<lambda>k. int k + 5) [''step3'', ''step2'', ''step1'']
      test_workflow (fresh_status, fresh_world))))"
  using workflow_deterministic [OF test_dag test_conditions test_range test_range_rev
    fresh_example fresh_example] by blast

lemma reachable_workflow_inv:
  "reachable fresh_execution (workflow_step ex workflow) sw \<Longrightarrow> valid_dag (rw_Steps workflow) \<Longrightarrow>
     workflow_inv ex workflow sw"
  using execution.inv_reachable by blast

lemma test_reachable:
  "reachable fresh_execution (workflow_step test_engine test_workflow)
     (fst (fst test_run), snd (fst test_run))"
proof -
  have "workflow_step test_engine test_workflow (fresh_status, fresh_world) (fst test_run)"
    unfolding test_run_def by (rule workflow_step_run [OF test_range])
  then show ?thesis using reach_step [OF reach_init [of fresh_execution]] fresh_example
    by (metis prod.collapse)
qed

text \<open>
  C10. No remediation action is executed twice: in every state a valid workflow can reach by
  any number of runs, the names of the executed steps are distinct, each is a step of the
  workflow, and each has a final status.
\<close>
theorem workflow_at_most_once:
  assumes "valid_dag (rw_Steps workflow)"
    and "reachable fresh_execution (workflow_step ex workflow) (state, w)"
  shows "distinct (step_names (wo_calls w)) \<and> set (wo_calls w) \<subseteq> set (rw_Steps workflow) \<and>
    (\<forall>s \<in> set (wo_calls w). terminal (getStepState (we_Steps state) (rs_Name s)))"
  using reachable_workflow_inv [OF assms(2,1)]
  by (auto simp: workflow_inv_def fresh_execution_def Let_def)

theorem workflow_at_most_once_witness:
  "distinct (step_names (wo_calls (snd (fst test_run))))"
  using workflow_at_most_once [OF test_dag test_reachable] by blast

text \<open>
  C18. In every reachable state of a valid workflow a finished step has settled dependencies
  and exactly the specified outcome: in particular a step that waits for success is never
  executed after a dependency failed or was skipped.
\<close>
theorem workflow_outcome_invariant:
  assumes "valid_dag (rw_Steps workflow)"
    and "reachable fresh_execution (workflow_step ex workflow) (state, w)"
    and "s \<in> set (rw_Steps workflow)"
    and "getStepState (we_Steps state) (rs_Name s) \<noteq> StepPending"
  shows "deps_settled (getStepState (we_Steps state)) s \<and>
    getStepState (we_Steps state) (rs_Name s) = step_outcome ex (getStepState (we_Steps state)) s"
  using reachable_workflow_inv [OF assms(2,1)] assms(3,4)
  by (auto simp: workflow_inv_def fresh_execution_def consistent_def Let_def split: if_splits)

lemma test_run_step1:
  "getStepState (we_Steps (fst (fst test_run))) ''step1'' \<noteq> StepPending"
proof -
  obtain st w e where r: "test_run = ((st, w), e)" by (metis prod.collapse)
  have "\<forall>s \<in> set (rw_Steps test_workflow). getStepState (we_Steps st) (rs_Name s) =
      step_outcome test_engine (getStepState (we_Steps st)) s"
    using first_run [OF test_dag test_conditions test_range fresh_example r [unfolded test_run_def]]
    by blast
  then have "terminal (getStepState (we_Steps st) ''step1'')"
    by (simp add: test_workflow_def mk_step_def)
  moreover have "fst (fst test_run) = st" by (simp only: r fst_conv)
  ultimately show ?thesis using terminal_settled by metis
qed

theorem workflow_outcome_invariant_witness:
  "getStepState (we_Steps (fst (fst test_run))) ''step1'' = StepFailed"
proof -
  let ?s = "mk_step ''step1'' [] []"
  have "?s \<in> set (rw_Steps test_workflow)" by (simp add: test_workflow_def)
  moreover have "rs_Name ?s = ''step1''" by (simp add: mk_step_def)
  ultimately have "getStepState (we_Steps (fst (fst test_run))) ''step1'' =
      step_outcome test_engine (getStepState (we_Steps (fst (fst test_run)))) ?s"
    using workflow_outcome_invariant [OF test_dag test_reachable, of ?s] test_run_step1 by simp
  then show ?thesis
    by (simp add: step_outcome_def is_skipped_def dep_failed_def mk_step_def test_engine_def)
qed

text \<open>
  C27. In an otherwise valid workflow (distinct names, known dependencies, no cycle), a step whose
  run condition is none of the three known ones stalls it: the switch of the source has no
  default, so in no state reachable by any number of runs is the workflow finished, and the step
  is still pending. An invalid workflow fails at once instead.
\<close>
theorem workflow_unknown_condition_stalls:
  assumes "valid_dag (rw_Steps workflow)"
    and "reachable fresh_execution (workflow_step ex workflow) (state, w)"
    and "s \<in> set (rw_Steps workflow)" and "\<not> valid_condition s"
  shows "we_State state \<noteq> StepSucceeded \<and> we_State state \<noteq> StepFailed \<and>
    getStepState (we_Steps state) (rs_Name s) = StepPending"
proof (cases "fresh_execution (state, w)")
  case True
  then show ?thesis by (simp add: fresh_execution_def)
next
  case False
  let ?g = "getStepState (we_Steps state)"
  have inv: "workflow_inv ex workflow (state, w)"
    by (rule reachable_workflow_inv [OF assms(2,1)])
  then have "\<not> terminal (?g (rs_Name s)) \<and> ?g (rs_Name s) = StepPending"
    using False assms(3,4) by (auto simp: workflow_inv_def consistent_def Let_def split: if_splits)
  moreover have "we_State state \<noteq> StepRunning \<Longrightarrow> terminal (?g (rs_Name s))"
    using inv False assms(3) by (auto simp: workflow_inv_def Let_def)
  ultimately show ?thesis by fastforce
qed

definition typo_workflow :: remediation_workflow where
  "typo_workflow = \<lparr>rw_Steps = [mk_step ''a'' [] ''onSuccess'']\<rparr>"

lemma typo_range: "range_order (tm_inDegree (topo_build (rw_Steps typo_workflow))) [''a'']"
  by (auto simp: topo_eval mk_step_def typo_workflow_def)

lemma typo_dag: "valid_dag (rw_Steps typo_workflow)"
  by (rule topologicalSort_valid [OF typo_range, of "rw_Steps typo_workflow"])
    (simp add: topo_eval mk_step_def typo_workflow_def)

theorem workflow_unknown_condition_stalls_witness:
  "we_State (fst (fst (run_workflow test_engine int [''a''] typo_workflow
     (fresh_status, fresh_world)))) \<noteq> StepSucceeded"
proof -
  let ?sw = "fst (run_workflow test_engine int [''a''] typo_workflow (fresh_status, fresh_world))"
  have "workflow_step test_engine typo_workflow (fresh_status, fresh_world) ?sw"
    by (rule workflow_step_run [OF typo_range])
  then have "reachable fresh_execution (workflow_step test_engine typo_workflow) ?sw"
    using reach_step [OF reach_init [of fresh_execution]] fresh_example by blast
  then have "reachable fresh_execution (workflow_step test_engine typo_workflow) (fst ?sw, snd ?sw)"
    by simp
  moreover have "mk_step ''a'' [] ''onSuccess'' \<in> set (rw_Steps typo_workflow)"
    by (simp add: typo_workflow_def)
  moreover have "\<not> valid_condition (mk_step ''a'' [] ''onSuccess'')"
    by (simp add: valid_condition_def mk_step_def api_consts)
  ultimately show ?thesis using workflow_unknown_condition_stalls [OF typo_dag] by blast
qed

text \<open>
  C40. A run of an invalid workflow executes nothing: it marks the execution Failed, leaves the
  step table and the world as they were, and returns the validation error.
\<close>
theorem run_workflow_rejects:
  assumes "range_order (tm_inDegree (topo_build (rw_Steps workflow))) ks"
    and "\<not> valid_dag (rw_Steps workflow)"
  shows "run_workflow ex clk ks workflow (state, w) =
    ((state\<lparr>we_State := StepFailed\<rparr>, w), Some (DAGValidationFailed CycleDetected))"
  by (rule run_workflow_invalid [OF assms])

lemma cyclic_dag: "\<not> valid_dag cyclic_steps"
proof
  assume "valid_dag cyclic_steps"
  then obtain out where "topologicalSort [''step1'', ''step2'', ''step3''] cyclic_steps = Inr out"
    using valid_sorted [OF cyclic_range] by metis
  then show False by (simp add: topo_eval example_steps)
qed

theorem run_workflow_rejects_witness:
  "snd (run_workflow test_engine int [''step1'', ''step2'', ''step3'']
      \<lparr>rw_Steps = cyclic_steps\<rparr> (fresh_status, fresh_world)) =
    Some (DAGValidationFailed CycleDetected)"
proof -
  let ?wf = "\<lparr>rw_Steps = cyclic_steps\<rparr> :: remediation_workflow"
  have "range_order (tm_inDegree (topo_build (rw_Steps ?wf))) [''step1'', ''step2'', ''step3'']"
    using cyclic_range by simp
  moreover have "\<not> valid_dag (rw_Steps ?wf)" using cyclic_dag by simp
  ultimately show ?thesis using run_workflow_rejects by (metis snd_conv)
qed

text \<open>
  With the engine of the source, a step succeeds if and only if every argument its action
  reads is present and not empty: only DiagnoseLogs, RemediatePatchResource and
  RemediateVirtctlAction can fail at all.
\<close>
theorem executeStep_succeeds_iff:
  "(executeStep f step = None) =
     (\<forall>k \<in> set (required_args (rs_Action step)). mget [] (rs_Arguments step) k \<noteq> [])"
  by (rule executeStep_None_iff)

theorem executeStep_succeeds_iff_witness:
  "\<forall>f. executeStep f \<lparr>rs_Name = ''s'', rs_Action = ''DiagnoseLogs'', rs_DependsOn = [],
     rs_RunCondition = [], rs_Arguments = [(''pattern'', ''error'')]\<rparr> = None"
  by (subst executeStep_succeeds_iff)
    (simp add: required_args_def api_consts mget_def)

end
