(* ===== verification/Workflow_Refinement.thy ===== *)
theory Workflow_Refinement
  imports Workflow_Run
begin

text \<open>
  The contract of the workflow runner: an abstract scheduler that settles open steps one at a
  time, in any order their dependencies allow. The runner refines it, on every workflow and over
  any number of runs; and on a valid workflow every complete schedule ends with the statuses the
  runner computes, so a scheduler with another order, or a parallel one, would change nothing.
\<close>

section \<open>The abstract scheduler\<close>

text \<open>A step settles when it is open, its dependencies are settled, and its condition is known.\<close>

inductive dag_step :: "(remediation_step \<Rightarrow> action_error option) \<Rightarrow> remediation_step list
    \<Rightarrow> (string \<Rightarrow> step_state) \<times> remediation_step list
    \<Rightarrow> (string \<Rightarrow> step_state) \<times> remediation_step list \<Rightarrow> bool"
  for ex :: "remediation_step \<Rightarrow> action_error option" and steps :: "remediation_step list" where
  ds_skip: "s \<in> set steps \<Longrightarrow> g (rs_Name s) = StepPending \<Longrightarrow> deps_settled g s \<Longrightarrow>
    is_skipped g s \<Longrightarrow> dag_step ex steps (g, cs) (g(rs_Name s := StepSkipped), cs)"
| ds_run: "s \<in> set steps \<Longrightarrow> g (rs_Name s) = StepPending \<Longrightarrow> deps_settled g s \<Longrightarrow>
    valid_condition s \<Longrightarrow> \<not> is_skipped g s \<Longrightarrow>
    dag_step ex steps (g, cs)
      (g(rs_Name s := if ex s = None then StepSucceeded else StepFailed), cs @ [s])"

inductive_cases dag_stepE: "dag_step ex steps (g, cs) x"

definition workflow_abs :: "workflow_execution_status \<times> world
    \<Rightarrow> (string \<Rightarrow> step_state) \<times> remediation_step list" where
  "workflow_abs sw = (getStepState (we_Steps (fst sw)), wo_calls (snd sw))"

definition nothing_done :: "(string \<Rightarrow> step_state) \<times> remediation_step list" where
  "nothing_done = (\<lambda>n. StepPending, [])"

lemma is_skipped_valid: "is_skipped g s \<Longrightarrow> valid_condition s"
  by (auto simp: is_skipped_def valid_condition_def)

lemma executed_same: "\<not> executed g g s"
  by (auto simp: executed_def terminal_def)

section \<open>The runner refines the scheduler\<close>

lemma abs_step_dag:
  assumes "consistent ex steps g" and "s \<in> set steps"
  shows "(dag_step ex steps)\<^sup>*\<^sup>* (g, cs)
    (abs_step ex s g, cs @ (if executed g (abs_step ex s g) s then [s] else []))"
proof (cases "terminal (g (rs_Name s)) \<or> \<not> deps_settled g s \<or> \<not> valid_condition s")
  case True
  then show ?thesis by (simp add: abs_step_def executed_same)
next
  case False
  then have pend: "g (rs_Name s) = StepPending" using assms by (auto simp: consistent_def)
  show ?thesis
  proof (cases "is_skipped g s")
    case True
    then show ?thesis using False assms(2) pend ds_skip [of s steps g ex cs]
      by (simp add: abs_step_def step_outcome_def executed_def)
  next
    case nskip: False
    then show ?thesis using False assms(2) pend ds_run [of s steps g ex cs]
      by (auto simp: abs_step_def step_outcome_def executed_def)
  qed
qed

lemma fold_abs_dag:
  assumes "consistent ex steps g" and "set ss \<subseteq> set steps" and "distinct (step_names steps)"
    and "distinct (step_names ss)"
  shows "(dag_step ex steps)\<^sup>*\<^sup>* (g, cs)
    (fold (abs_step ex) ss g, cs @ filter (executed g (fold (abs_step ex) ss g)) ss)"
  using assms
proof (induction ss arbitrary: g cs)
  case Nil
  then show ?case by simp
next
  case (Cons s ss)
  let ?g1 = "abs_step ex s g"
  let ?g' = "fold (abs_step ex) ss ?g1" and ?cs1 = "cs @ (if executed g ?g1 s then [s] else [])"
  have s: "s \<in> set steps" "set ss \<subseteq> set steps" using Cons.prems(2) by simp_all
  have new: "rs_Name s \<notin> rs_Name ` set ss" "distinct (step_names ss)"
    using step_names_distinct_Cons [OF Cons.prems(4)] by simp_all
  have "(dag_step ex steps)\<^sup>*\<^sup>* (?g1, ?cs1) (?g', ?cs1 @ filter (executed ?g1 ?g') ss)"
    by (rule Cons.IH [OF consistent_abs_step [OF Cons.prems(1) s(1) Cons.prems(3)] s(2) Cons.prems(3) new(2)])
  moreover have "filter (executed ?g1 ?g') ss = filter (executed g ?g') ss"
    using new(1) by (intro filter_cong) (auto simp: executed_def abs_step_other image_iff)
  moreover have "executed g ?g' s = executed g ?g1 s"
    using fold_abs_other [OF new(1)] by (simp add: executed_def)
  ultimately show ?case
    using rtranclp_trans [OF abs_step_dag [OF Cons.prems(1) s(1), of cs]] by auto
qed

lemma active_getStepState: "getStepState (active_table out state) = getStepState (we_Steps state)"
  by (rule ext) (simp add: active_table_def)

text \<open>One run, from any state a workflow can reach, is a sequence of scheduler steps.\<close>

lemma run_refines:
  assumes dag: "valid_dag (rw_Steps workflow)" and inv: "workflow_inv ex workflow (state, w)"
    and ord: "range_order (tm_inDegree (topo_build (rw_Steps workflow))) ks"
    and run: "run_workflow ex clk ks workflow (state, w) = (sw', e)"
  shows "(dag_step ex (rw_Steps workflow))\<^sup>*\<^sup>* (workflow_abs (state, w)) (workflow_abs sw')"
proof -
  let ?steps = "rw_Steps workflow"
  obtain out where out: "topologicalSort ks ?steps = Inr out" "set out = set ?steps"
    "distinct (step_names out)" "mset out = mset ?steps"
    using valid_sorted [OF ord dag] by metis
  obtain state' w' where sw': "sw' = (state', w')" by fastforce
  show ?thesis
  proof (cases "we_State state = StepSucceeded \<or> we_State state = StepFailed")
    case True
    then show ?thesis using run_workflow_terminal [OF out(1) True] run by simp
  next
    case False
    have cons: "consistent ex ?steps (getStepState (we_Steps state))"
      using inv by (auto simp: workflow_inv_def fresh_execution_def consistent_def Let_def)
    have names: "set (step_names out) \<subseteq> ws_Name ` set (active_table out state)"
    proof (cases "we_Steps state = []")
      case True
      then show ?thesis by (simp add: active_table_def set_step_names init_step_status_def image_image)
    next
      case some: False
      then have "mset (map ws_Name (we_Steps state)) = mset (step_names ?steps)"
        using inv by (auto simp: workflow_inv_def fresh_execution_def Let_def)
      then have "set (step_names out) = ws_Name ` set (we_Steps state)"
        using out(2) by (metis list.set_map set_mset_mset set_step_names)
      with some show ?thesis by (simp add: active_table_def)
    qed
    have dist: "distinct (step_names ?steps)" using dag by (simp add: valid_dag_def)
    have "we_State state \<noteq> StepSucceeded" "we_State state \<noteq> StepFailed" using False by auto
    note pass = run_workflow_pass [OF out(1,3) this names run [unfolded sw']]
    show ?thesis
      using pass fold_abs_dag [OF cons _ dist out(3), of "wo_calls w"] out(2)
      by (simp add: workflow_abs_def sw' active_getStepState)
  qed
qed

lemma rejected_refines:
  assumes "\<not> valid_dag (rw_Steps workflow)"
    and "range_order (tm_inDegree (topo_build (rw_Steps workflow))) ks"
    and "run_workflow ex clk ks workflow sw = (sw', e)"
  shows "workflow_abs sw' = workflow_abs sw"
proof -
  obtain state w where sw: "sw = (state, w)" by fastforce
  have "sw' = (state\<lparr>we_State := StepFailed\<rparr>, w)"
    using run_workflow_invalid [OF assms(2,1)] assms(3) sw by simp
  then show ?thesis by (simp add: workflow_abs_def sw)
qed

lemma step_refines:
  assumes "reachable fresh_execution (workflow_step ex workflow) sw"
    and "workflow_step ex workflow sw sw'"
  shows "(dag_step ex (rw_Steps workflow))\<^sup>*\<^sup>* (workflow_abs sw) (workflow_abs sw')"
  using assms(2)
proof cases
  case (iterate ks clk e)
  show ?thesis
  proof (cases "valid_dag (rw_Steps workflow)")
    case True
    obtain state w where sw: "sw = (state, w)" by fastforce
    have "workflow_inv ex workflow (state, w)"
      using reachable_workflow_inv [OF assms(1) True] sw by simp
    from run_refines [OF True this iterate(1)] iterate(2) sw show ?thesis by simp
  next
    case False
    then show ?thesis using rejected_refines [OF False iterate] by simp
  qed
qed

section \<open>Complete schedules\<close>

definition did_run :: "(string \<Rightarrow> step_state) \<Rightarrow> remediation_step \<Rightarrow> bool" where
  "did_run g s \<longleftrightarrow> g (rs_Name s) = StepSucceeded \<or> g (rs_Name s) = StepFailed"

definition schedule_ok :: "(remediation_step \<Rightarrow> action_error option) \<Rightarrow> remediation_step list
    \<Rightarrow> (string \<Rightarrow> step_state) \<times> remediation_step list \<Rightarrow> bool" where
  "schedule_ok ex steps x \<longleftrightarrow>
     consistent ex steps (fst x) \<and> (\<forall>n. n \<notin> set (step_names steps) \<longrightarrow> fst x n = StepPending) \<and>
     distinct (snd x) \<and> set (snd x) = {s \<in> set steps. did_run (fst x) s}"

lemma schedule_ok_start: "schedule_ok ex steps nothing_done"
  by (simp add: schedule_ok_def nothing_done_def consistent_def did_run_def)

lemma did_run_upd:
  assumes "distinct (step_names steps)" and "s \<in> set steps" and "t \<in> set steps"
  shows "did_run (g(rs_Name s := v)) t \<longleftrightarrow> (if t = s then v = StepSucceeded \<or> v = StepFailed else did_run g t)"
  using step_names_inj [OF assms(1,3,2)] by (auto simp: did_run_def)

lemma skip_distinct: "StepSkipped \<noteq> StepSucceeded" "StepSkipped \<noteq> StepFailed"
  by (simp_all add: api_consts)

lemma schedule_ok_step:
  assumes step: "dag_step ex steps x y" and ok: "schedule_ok ex steps x"
    and dist: "distinct (step_names steps)"
  shows "schedule_ok ex steps y"
  using step
proof cases
  case (ds_skip s g cs)
  have g': "g(rs_Name s := StepSkipped) = abs_step ex s g"
    using ds_skip is_skipped_valid by (auto simp: abs_step_def step_outcome_def)
  have cons: "consistent ex steps (g(rs_Name s := StepSkipped))"
    unfolding g' using ok ds_skip by (intro consistent_abs_step [OF _ _ dist]) (simp_all add: schedule_ok_def)
  have "\<not> did_run g s" using ds_skip by (simp add: did_run_def)
  then have "{t \<in> set steps. did_run (g(rs_Name s := StepSkipped)) t} = {t \<in> set steps. did_run g t}"
    using did_run_upd [OF dist ds_skip(3)] skip_distinct by (auto split: if_splits)
  with cons ok ds_skip show ?thesis by (auto simp: schedule_ok_def set_step_names)
next
  case (ds_run s g cs)
  let ?v = "if ex s = None then StepSucceeded else StepFailed"
  have g': "g(rs_Name s := ?v) = abs_step ex s g"
    using ds_run by (simp add: abs_step_def step_outcome_def)
  have cons: "consistent ex steps (g(rs_Name s := ?v))"
    unfolding g' using ok ds_run by (intro consistent_abs_step [OF _ _ dist]) (simp_all add: schedule_ok_def)
  have new: "\<not> did_run g s" using ds_run by (simp add: did_run_def)
  have "{t \<in> set steps. did_run (g(rs_Name s := ?v)) t} = insert s {t \<in> set steps. did_run g t}"
    using did_run_upd [OF dist ds_run(3)] ds_run(3) by auto
  with cons ok ds_run new show ?thesis by (auto simp: schedule_ok_def set_step_names)
qed

lemma schedule_ok_reach:
  assumes "(dag_step ex steps)\<^sup>*\<^sup>* nothing_done x" and "distinct (step_names steps)"
  shows "schedule_ok ex steps x"
  using assms(1) by (induction rule: rtranclp_induct)
    (auto intro: schedule_ok_start schedule_ok_step [OF _ _ assms(2)])

definition stuck :: "(remediation_step \<Rightarrow> action_error option) \<Rightarrow> remediation_step list
    \<Rightarrow> (string \<Rightarrow> step_state) \<times> remediation_step list \<Rightarrow> bool" where
  "stuck ex steps x \<longleftrightarrow> (\<forall>y. \<not> dag_step ex steps x y)"

lemma stuck_terminal:
  assumes "deps_first_from seen ss" and "\<forall>n \<in> set seen. terminal (g n)" and "set ss \<subseteq> set steps"
    and "consistent ex steps g" and "\<forall>s \<in> set steps. valid_condition s" and "stuck ex steps (g, cs)"
  shows "\<forall>s \<in> set ss. terminal (g (rs_Name s))"
  using assms
proof (induction ss arbitrary: seen)
  case Nil
  then show ?case by simp
next
  case (Cons s ss)
  have s: "s \<in> set steps" "valid_condition s" using Cons.prems(3,5) by simp_all
  have "deps_settled g s"
    using Cons.prems(1,2) terminal_settled by (auto simp: deps_settled_def)
  then have "terminal (g (rs_Name s))"
    using s Cons.prems(4,6) ds_skip [of s steps g ex cs] ds_run [of s steps g ex cs]
    unfolding stuck_def consistent_def by metis
  moreover have "\<forall>t \<in> set ss. terminal (g (rs_Name t))"
    using Cons.prems calculation by (intro Cons.IH [of "rs_Name s # seen"]) simp_all
  ultimately show ?case by simp
qed

lemma complete_outcome:
  assumes ok: "schedule_ok ex steps (g, cs)" and stuck: "stuck ex steps (g, cs)"
    and out: "set out = set steps" "deps_first out" and conds: "\<forall>s \<in> set steps. valid_condition s"
  shows "\<forall>s \<in> set out. g (rs_Name s) = step_outcome ex g s"
proof
  fix s assume s: "s \<in> set out"
  have cons: "consistent ex steps g" using ok by (simp add: schedule_ok_def)
  have "terminal (g (rs_Name s))"
    using stuck_terminal [of "[]" out g steps ex cs] out s cons conds stuck
    by (simp add: deps_first_def)
  moreover have "s \<in> set steps" using s out(1) by simp
  ultimately show "g (rs_Name s) = step_outcome ex g s"
    using bspec [OF cons [unfolded consistent_def]] by (simp only: if_True)
qed

lemma complete_unique:
  assumes out: "set out = set steps" "deps_first out" and dist: "distinct (step_names steps)"
    and conds: "\<forall>s \<in> set steps. valid_condition s"
    and x: "(dag_step ex steps)\<^sup>*\<^sup>* nothing_done (g, cs)" "stuck ex steps (g, cs)"
    and y: "(dag_step ex steps)\<^sup>*\<^sup>* nothing_done (h, ds)" "stuck ex steps (h, ds)"
  shows "g = h \<and> mset cs = mset ds"
proof -
  have okg: "schedule_ok ex steps (g, cs)" and okh: "schedule_ok ex steps (h, ds)"
    using schedule_ok_reach [OF _ dist] x(1) y(1) by blast+
  have first: "deps_first_from [] out" using out(2) by (simp add: deps_first_def)
  have "\<forall>s \<in> set out. g (rs_Name s) = step_outcome ex g s"
    by (rule complete_outcome [OF okg x(2) out conds])
  moreover have "\<forall>s \<in> set out. h (rs_Name s) = step_outcome ex h s"
    by (rule complete_outcome [OF okh y(2) out conds])
  ultimately have eq: "\<forall>s \<in> set out. g (rs_Name s) = h (rs_Name s)"
    using outcome_unique_from [OF first, of g h ex] by fastforce
  have "g n = h n" for n
  proof (cases "n \<in> set (step_names steps)")
    case True
    then show ?thesis using eq out(1) by (auto simp: set_step_names)
  next
    case False
    then show ?thesis using okg okh by (simp add: schedule_ok_def)
  qed
  then have "g = h" ..
  have "distinct cs" "distinct ds" "set cs = set ds"
    using okg okh unfolding schedule_ok_def \<open>g = h\<close> by simp_all
  with \<open>g = h\<close> show ?thesis by (simp add: set_eq_iff_mset_eq_distinct)
qed

lemma all_terminal_stuck: "\<forall>s \<in> set steps. terminal (g (rs_Name s)) \<Longrightarrow> stuck ex steps (g, cs)"
  by (auto simp: stuck_def elim!: dag_stepE)

lemma fresh_abs: "fresh_execution sw \<Longrightarrow> workflow_abs sw = nothing_done"
  by (auto simp: fresh_execution_def workflow_abs_def nothing_done_def)

lemma run_refines_start:
  assumes "fresh_execution sw" and "workflow_step ex workflow sw sw'"
  shows "(dag_step ex (rw_Steps workflow))\<^sup>*\<^sup>* nothing_done (workflow_abs sw')"
  using step_refines [OF reach_init [of fresh_execution, OF assms(1)] assms(2)] fresh_abs [OF assms(1)]
  by simp

section \<open>Properties\<close>

text \<open>
  C3. The runner refines the abstract scheduler: on every workflow, valid or not, with any engine,
  any clock and any order of the map range, a fresh execution is the scheduler's initial state
  and each further run is a sequence of scheduler steps on the recorded statuses and on the log of
  executed actions. In particular no step is touched before its dependencies are settled.
\<close>
theorem run_refines_scheduler:
  assumes "reachable fresh_execution (workflow_step ex workflow) sw"
    and "workflow_step ex workflow sw sw'"
  shows "(fresh_execution sw \<longrightarrow> workflow_abs sw = nothing_done) \<and>
    (dag_step ex (rw_Steps workflow))\<^sup>*\<^sup>* (workflow_abs sw) (workflow_abs sw')"
  using step_refines [OF assms] fresh_abs by blast

theorem run_refines_scheduler_witness:
  "(dag_step test_engine (rw_Steps test_workflow))\<^sup>*\<^sup>* nothing_done (workflow_abs (fst test_run))"
proof -
  have step: "workflow_step test_engine test_workflow (fresh_status, fresh_world) (fst test_run)"
    unfolding test_run_def by (rule workflow_step_run [OF test_range])
  show ?thesis
    using run_refines_scheduler [OF reach_init [of fresh_execution, OF fresh_example] step] fresh_example
    by metis
qed

text \<open>
  C13. Any complete schedule does what the runner does: if the abstract scheduler, choosing steps
  in any order, can go no further on a valid workflow with known conditions, then every step has
  the status the first run of the code gives it, and the same actions were executed.
\<close>
theorem complete_schedules_agree:
  assumes "valid_dag (rw_Steps workflow)"
    and "\<forall>s \<in> set (rw_Steps workflow). valid_condition s"
    and "range_order (tm_inDegree (topo_build (rw_Steps workflow))) ks"
    and "fresh_execution sw" and "run_workflow ex clk ks workflow sw = (sw', e)"
    and "(dag_step ex (rw_Steps workflow))\<^sup>*\<^sup>* nothing_done (g, cs)"
    and "stuck ex (rw_Steps workflow) (g, cs)"
  shows "g = getStepState (we_Steps (fst sw')) \<and> mset cs = mset (wo_calls (snd sw'))"
proof -
  obtain out where out: "set out = set (rw_Steps workflow)" "deps_first out"
    using valid_sorted [OF assms(3,1)] by metis
  have step: "workflow_step ex workflow sw sw'"
    using workflow_step.iterate [OF assms(3,5)] .
  obtain st w where sw: "sw = (st, w)" by fastforce
  obtain st' w' where sw': "sw' = (st', w')" by fastforce
  have "\<forall>s \<in> set (rw_Steps workflow). terminal (getStepState (we_Steps st') (rs_Name s))"
    using first_run [OF assms(1-3) assms(4) [unfolded sw] assms(5) [unfolded sw sw']]
    by (metis terminal_step_outcome)
  then have "stuck ex (rw_Steps workflow) (workflow_abs sw')"
    by (simp add: sw' workflow_abs_def all_terminal_stuck)
  then show ?thesis
    using complete_unique [OF out _ assms(2,6,7)] run_refines_start [OF assms(4) step] assms(1)
    by (simp add: workflow_abs_def valid_dag_def)
qed

definition one_step :: remediation_workflow where
  "one_step = \<lparr>rw_Steps = [mk_step ''a'' [] []]\<rparr>"

lemma one_step_dag: "range_order (tm_inDegree (topo_build (rw_Steps one_step))) [''a'']"
  "valid_dag (rw_Steps one_step)" "\<forall>s \<in> set (rw_Steps one_step). valid_condition s"
proof -
  show range: "range_order (tm_inDegree (topo_build (rw_Steps one_step))) [''a'']"
    by (auto simp: topo_eval mk_step_def one_step_def)
  show "valid_dag (rw_Steps one_step)"
    by (rule topologicalSort_valid [OF range, of "rw_Steps one_step"])
      (simp add: topo_eval mk_step_def one_step_def)
  show "\<forall>s \<in> set (rw_Steps one_step). valid_condition s"
    by (simp add: one_step_def mk_step_def valid_condition_def)
qed

theorem complete_schedules_agree_witness:
  "getStepState (we_Steps (fst (fst (run_workflow test_engine int [''a''] one_step
      (fresh_status, fresh_world))))) ''a'' = StepSucceeded"
proof -
  let ?s = "mk_step ''a'' [] []" and ?g = "(\<lambda>n. StepPending)(''a'' := StepSucceeded)"
  have "dag_step test_engine (rw_Steps one_step) nothing_done (?g, [?s])"
    using ds_run [of ?s "rw_Steps one_step" "\<lambda>n. StepPending" test_engine "[]"]
    by (simp add: one_step_def mk_step_def deps_settled_def valid_condition_def is_skipped_def
        dep_failed_def test_engine_def nothing_done_def)
  moreover have "stuck test_engine (rw_Steps one_step) (?g, [?s])"
    by (rule all_terminal_stuck) (simp add: one_step_def mk_step_def)
  ultimately have "?g = getStepState (we_Steps (fst (fst (run_workflow test_engine int [''a''] one_step
      (fresh_status, fresh_world)))))"
    using complete_schedules_agree [OF one_step_dag(2,3,1) fresh_example prod.collapse [symmetric]]
    by blast
  then show ?thesis by (metis fun_upd_same)
qed

end
