(* ===== verification/Toposort_Loop.thy ===== *)
theory Toposort_Loop
  imports Toposort "HOL-Library.While_Combinator"
begin

text \<open>
  The main loop of \<^verbatim>\<open>topologicalSort\<close> as the source has it: a while loop over
  mutable variables, with an early return. It is shown to end on every workflow, valid or not,
  after at most one turn per step, and to compute what the recursive definition computes.
\<close>

record topo_state =
  ts_inDegree :: "(string, int) gomap"
  ts_queue :: "string list"
  ts_sorted :: "remediation_step list"
  ts_count :: nat
  ts_error :: "topo_error option"

definition topo_start :: "string list \<Rightarrow> remediation_step list \<Rightarrow> topo_state" where
  "topo_start ks steps =
     (let deg = tm_inDegree (topo_build steps)
      in \<lparr>ts_inDegree = deg, ts_queue = filter (\<lambda>name. mget 0 deg name = 0) ks,
          ts_sorted = [], ts_count = 0, ts_error = None\<rparr>)"

definition topo_continue :: "topo_state \<Rightarrow> bool" where
  "topo_continue st \<longleftrightarrow> ts_error st = None \<and> 0 < length (ts_queue st)"

text \<open>One turn: dequeue, look the step up, append it, relax its neighbours.\<close>

definition topo_turn :: "topo_maps \<Rightarrow> topo_state \<Rightarrow> topo_state" where
  "topo_turn t st =
     (let curr = hd (ts_queue st); queue = tl (ts_queue st)
      in case map_of (tm_stepMap t) curr of
           None \<Rightarrow> st\<lparr>ts_queue := queue, ts_error := Some (DependencyNotFound curr)\<rparr>
         | Some step \<Rightarrow>
             (case topo_relax (mget [] (tm_graph t) curr) (ts_inDegree st) queue of (deg', queue') \<Rightarrow>
                st\<lparr>ts_inDegree := deg', ts_queue := queue', ts_sorted := ts_sorted st @ [step],
                   ts_count := Suc (ts_count st)\<rparr>))"

definition topo_finish :: "remediation_step list \<Rightarrow> topo_state \<Rightarrow> topo_error + remediation_step list" where
  "topo_finish steps st =
     (case ts_error st of
        Some e \<Rightarrow> Inl e
      | None \<Rightarrow> if ts_count st \<noteq> length steps then Inl CycleDetected else Inr (ts_sorted st))"

definition topo_while :: "string list \<Rightarrow> remediation_step list \<Rightarrow> topo_state option" where
  "topo_while ks steps =
     while_option topo_continue (topo_turn (topo_build steps)) (topo_start ks steps)"

section \<open>Termination\<close>

text \<open>The value the recursive loop has, read off a final state.\<close>

definition topo_outcome :: "topo_state \<Rightarrow> topo_error + remediation_step list \<times> nat" where
  "topo_outcome st =
     (case ts_error st of Some e \<Rightarrow> Inl e | None \<Rightarrow> Inr (ts_sorted st, ts_count st))"

lemma topo_loop_while:
  "\<exists>k \<le> length queue + card (topo_waiting deg).
     let s = \<lparr>ts_inDegree = deg, ts_queue = queue, ts_sorted = out, ts_count = cnt, ts_error = None\<rparr>;
         final = (topo_turn t ^^ k) s
     in while_option topo_continue (topo_turn t) s = Some final \<and>
        topo_loop t deg queue out cnt = topo_outcome final"
proof (induction t deg queue out cnt rule: topo_loop.induct)
  case (1 t deg out cnt)
  have "\<not> topo_continue \<lparr>ts_inDegree = deg, ts_queue = [], ts_sorted = out, ts_count = cnt,
      ts_error = None\<rparr>" by (simp add: topo_continue_def)
  then show ?case
    by (intro exI [of _ 0]) (simp add: while_option_unfold [of topo_continue] topo_outcome_def Let_def)
next
  case (2 t deg cur queue out cnt)
  let ?s = "\<lparr>ts_inDegree = deg, ts_queue = cur # queue, ts_sorted = out, ts_count = cnt,
    ts_error = None\<rparr>"
  have go: "topo_continue ?s" by (simp add: topo_continue_def)
  show ?case
  proof (cases "map_of (tm_stepMap t) cur")
    case None
    let ?final = "?s\<lparr>ts_queue := queue, ts_error := Some (DependencyNotFound cur)\<rparr>"
    have "topo_turn t ?s = ?final" using None by (simp add: topo_turn_def)
    moreover have "while_option topo_continue (topo_turn t) ?final = Some ?final"
      by (simp add: while_option_unfold [of topo_continue] topo_continue_def)
    ultimately have "while_option topo_continue (topo_turn t) ?s = Some ((topo_turn t ^^ 1) ?s)"
      using go by (simp add: while_option_unfold [of topo_continue _ ?s])
    then show ?thesis using None \<open>topo_turn t ?s = ?final\<close>
      by (intro exI [of _ 1]) (simp add: Let_def topo_outcome_def)
  next
    case (Some step)
    obtain deg' queue' where relax: "topo_relax (mget [] (tm_graph t) cur) deg queue = (deg', queue')"
      by fastforce
    let ?s' = "\<lparr>ts_inDegree = deg', ts_queue = queue', ts_sorted = out @ [step],
      ts_count = Suc cnt, ts_error = None\<rparr>"
    have turn: "topo_turn t ?s = ?s'" using Some relax by (simp add: topo_turn_def)
    from "2.IH" [OF Some relax [symmetric]] obtain k where
      k: "k \<le> length queue' + card (topo_waiting deg')"
      and IH: "while_option topo_continue (topo_turn t) ?s' = Some ((topo_turn t ^^ k) ?s')"
        "topo_loop t deg' queue' (out @ [step]) (Suc cnt) = topo_outcome ((topo_turn t ^^ k) ?s')"
      unfolding Let_def by blast
    have final: "(topo_turn t ^^ k) ?s' = (topo_turn t ^^ Suc k) ?s"
      unfolding funpow_Suc_right comp_apply turn ..
    have "while_option topo_continue (topo_turn t) ?s = Some ((topo_turn t ^^ Suc k) ?s)"
      using IH(1) while_option_unfold [of topo_continue "topo_turn t" ?s] go turn
      by (simp add: final)
    moreover have "topo_loop t deg (cur # queue) out cnt = topo_outcome ((topo_turn t ^^ Suc k) ?s)"
      using IH(2) Some relax final by simp
    moreover have "Suc k \<le> length (cur # queue) + card (topo_waiting deg)"
      using k topo_relax_measure [OF relax] by simp
    ultimately show ?thesis unfolding Let_def by blast
  qed
qed

text \<open>The names in the queue or waiting are names of steps, each counted once.\<close>

lemma topo_turns_bound:
  assumes "range_order (tm_inDegree (topo_build steps)) ks"
  shows "length (ts_queue (topo_start ks steps)) +
    card (topo_waiting (tm_inDegree (topo_build steps))) \<le> length steps"
proof -
  let ?deg = "tm_inDegree (topo_build steps)"
  let ?q = "filter (\<lambda>name. mget 0 ?deg name = 0) ks"
  have ks: "distinct ks" "set ks = set (step_names steps)"
    using assms by (simp_all add: range_order_def topo_build_maps)
  have waiting: "topo_waiting ?deg \<subseteq> set (step_names steps)"
    using mget_absent [of _ ?deg 0] by (force simp: topo_waiting_def topo_build_maps)
  have disj: "set ?q \<inter> topo_waiting ?deg = {}" by (auto simp: topo_waiting_def)
  have "length ?q + card (topo_waiting ?deg) = card (set ?q \<union> topo_waiting ?deg)"
    using disj distinct_card [OF distinct_filter [OF ks(1)], symmetric]
    by (simp add: card_Un_disjoint del: set_filter)
  also have "\<dots> \<le> card (set (step_names steps))"
    using ks(2) waiting by (intro card_mono) auto
  also have "\<dots> \<le> length steps" by (metis card_length length_step_names)
  finally show ?thesis by (simp add: topo_start_def Let_def)
qed

section \<open>Property\<close>

text \<open>
  C11. The sort always returns. On every workflow, also one with cycles, unknown dependencies or
  repeated names, and for every order of the map range, the while loop of the source ends after
  at most as many turns as there are steps, and the result read off its final state is the
  one the recursive definition gives.
\<close>
theorem topologicalSort_terminates:
  assumes "range_order (tm_inDegree (topo_build steps)) ks"
  shows "\<exists>k st. k \<le> length steps \<and> st = (topo_turn (topo_build steps) ^^ k) (topo_start ks steps) \<and>
    topo_while ks steps = Some st \<and> topologicalSort ks steps = topo_finish steps st"
proof -
  let ?deg = "tm_inDegree (topo_build steps)"
  obtain k where k: "k \<le> length (ts_queue (topo_start ks steps)) + card (topo_waiting ?deg)"
    and final: "topo_while ks steps = Some ((topo_turn (topo_build steps) ^^ k) (topo_start ks steps))"
      "topo_loop (topo_build steps) ?deg (ts_queue (topo_start ks steps)) [] 0 =
        topo_outcome ((topo_turn (topo_build steps) ^^ k) (topo_start ks steps))"
    using topo_loop_while [of "ts_queue (topo_start ks steps)" ?deg "[]" 0 "topo_build steps"]
    by (auto simp: topo_while_def topo_start_def Let_def)
  have "topologicalSort ks steps = topo_finish steps ((topo_turn (topo_build steps) ^^ k) (topo_start ks steps))"
    using final(2) by (auto simp: topologicalSort_def topo_start_def Let_def topo_outcome_def
        topo_finish_def split: option.splits)
  with k final(1) topo_turns_bound [OF assms] show ?thesis by (meson le_trans)
qed

theorem topologicalSort_terminates_witness:
  "\<exists>st. topo_while [''step1'', ''step2'', ''step3''] cyclic_steps = Some st \<and>
     topo_finish cyclic_steps st = Inl CycleDetected"
proof -
  have "topologicalSort [''step1'', ''step2'', ''step3''] cyclic_steps = Inl CycleDetected"
    by (simp add: topo_eval example_steps)
  then show ?thesis using topologicalSort_terminates [OF cyclic_range] by force
qed

end
