(* ===== verification/Status_Helpers.thy ===== *)
theory Status_Helpers
  imports Api_Types Interfaces
begin

text \<open>
  The pure helpers of internal/controller/srepolicy_controller.go: finalizer lists, status
  conditions, the per-resource counts, the priority sort behind the findings cap, and the
  requeue interval. The sort is the source's in-place insertion sort with its two index loops;
  it is shown equal to the library's stable \<^const>\<open>sort_key\<close>. Conditions are a table
  that accepts new keys, so they interpret the extended table contract.
\<close>

section \<open>Finalizers\<close>

definition finalizerName :: string where
  "finalizerName = ''sre.kubevirt.io/finalizer''"

fun containsString :: "string list \<Rightarrow> string \<Rightarrow> bool" where
  "containsString [] s = False"
| "containsString (v # vs) s = (if v = s then True else containsString vs s)"

fun removeString_loop :: "string list \<Rightarrow> string list \<Rightarrow> string \<Rightarrow> string list" where
  "removeString_loop out [] s = out"
| "removeString_loop out (v # vs) s =
     removeString_loop (if v \<noteq> s then out @ [v] else out) vs s"

definition removeString :: "string list \<Rightarrow> string \<Rightarrow> string list" where
  "removeString strs s = removeString_loop [] strs s"

lemma containsString_iff [simp]: "containsString vs s \<longleftrightarrow> s \<in> set vs"
  by (induction vs) auto

lemma removeString_filter: "removeString vs s = filter (\<lambda>v. v \<noteq> s) vs"
proof -
  have "removeString_loop out vs s = out @ filter (\<lambda>v. v \<noteq> s) vs" for out
    by (induction vs arbitrary: out) auto
  then show ?thesis by (simp add: removeString_def)
qed

section \<open>Conditions\<close>

definition conditionTypeReady :: string where "conditionTypeReady = ''Ready''"
definition conditionTypeOTelHealthy :: string where "conditionTypeOTelHealthy = ''OTelHealthy''"
definition conditionTypePromHealthy :: string where
  "conditionTypePromHealthy = ''PrometheusHealthy''"
definition conditionTypeOCPHealthy :: string where
  "conditionTypeOCPHealthy = ''OCPClusterHealthy''"
definition ConditionTrue :: string where "ConditionTrue = ''True''"
definition ConditionFalse :: string where "ConditionFalse = ''False''"

fun set_condition_in :: "string \<Rightarrow> string \<times> string \<times> string \<times> time \<Rightarrow> status_condition list
    \<Rightarrow> status_condition list" where
  "set_condition_in condType (condStatus, reason, message, now) [] =
     [\<lparr>co_Type = condType, co_Status = condStatus, co_Reason = reason, co_Message = message,
       co_LastTransitionTime = now\<rparr>]"
| "set_condition_in condType (condStatus, reason, message, now) (c # cs) =
     (if co_Type c = condType
      then c\<lparr>co_Status := condStatus, co_Reason := reason, co_Message := message,
             co_LastTransitionTime := now\<rparr> # cs
      else c # set_condition_in condType (condStatus, reason, message, now) cs)"

definition setCondition :: "time \<Rightarrow> string \<Rightarrow> string \<Rightarrow> string \<Rightarrow> string
    \<Rightarrow> sre_policy_status \<Rightarrow> sre_policy_status" where
  "setCondition now condType condStatus reason message status =
     status\<lparr>st_Conditions :=
       set_condition_in condType (condStatus, reason, message, now) (st_Conditions status)\<rparr>"

text \<open>Reading a condition: the contents of the first entry of the type.\<close>

fun get_condition :: "status_condition list \<Rightarrow> string \<Rightarrow> string \<times> string \<times> string \<times> time" where
  "get_condition [] ty = ([], [], [], 0)"
| "get_condition (c # cs) ty =
     (if co_Type c = ty then (co_Status c, co_Reason c, co_Message c, co_LastTransitionTime c)
      else get_condition cs ty)"

definition condition_types :: "status_condition list \<Rightarrow> string set" where
  "condition_types cs = co_Type ` set cs"

lemma set_condition_types:
  "map co_Type (set_condition_in ty v cs) =
     (if ty \<in> condition_types cs then map co_Type cs else map co_Type cs @ [ty])"
  by (induction ty v cs rule: set_condition_in.induct) (auto simp: condition_types_def)

lemma get_set_condition: "get_condition (set_condition_in k v s) k = v"
  by (induction k v s rule: set_condition_in.induct) auto

lemma get_set_condition_other:
  "k' \<noteq> k \<Longrightarrow> get_condition (set_condition_in k v s) k' = get_condition s k'"
  by (induction k v s rule: set_condition_in.induct) auto

lemma condition_types_set: "condition_types (set_condition_in k v s) = insert k (condition_types s)"
  by (induction k v s rule: set_condition_in.induct) (auto simp: condition_types_def)

interpretation conditions: inserting_store get_condition set_condition_in condition_types
  by unfold_locales
    (simp_all add: get_set_condition get_set_condition_other condition_types_set insert_absorb)

lemma setCondition_fields [simp]:
  "st_Findings (setCondition t ty c r m s) = st_Findings s"
  "st_Phase (setCondition t ty c r m s) = st_Phase s"
  "st_FailedCount (setCondition t ty c r m s) = st_FailedCount s"
  by (simp_all add: setCondition_def)

section \<open>Counts\<close>

text \<open>
  The loop of \<^verbatim>\<open>countBySeverity\<close>: only the first finding of a resource counts.
\<close>

fun count_loop :: "check_result list \<Rightarrow> (string, bool) gomap \<Rightarrow> nat \<times> nat \<times> nat
    \<Rightarrow> nat \<times> nat \<times> nat" where
  "count_loop [] seen hdf = hdf"
| "count_loop (f # fs) seen (healthy, degraded, failed) =
     (if mget False seen (cr_ResourceRef f) then count_loop fs seen (healthy, degraded, failed)
      else count_loop fs (mset_key (cr_ResourceRef f) True seen)
        (if cr_Status f = ''Healthy'' then (Suc healthy, degraded, failed)
         else if cr_Status f = ''Degraded'' then (healthy, Suc degraded, failed)
         else if cr_Status f = ''Failed'' then (healthy, degraded, Suc failed)
         else (healthy, degraded, failed)))"

definition countBySeverity :: "check_result list \<Rightarrow> nat \<times> nat \<times> nat" where
  "countBySeverity findings = count_loop findings [] (0, 0, 0)"

definition resources_with :: "string \<Rightarrow> check_result list \<Rightarrow> nat" where
  "resources_with st fs = length (filter (\<lambda>f. cr_Status f = st) (first_by cr_ResourceRef fs))"

lemma count_loop_first_by:
  "count_loop fs seen (h, d, f) =
     (let u = first_by cr_ResourceRef (filter (\<lambda>x. \<not> mget False seen (cr_ResourceRef x)) fs)
      in (h + length (filter (\<lambda>x. cr_Status x = ''Healthy'') u),
          d + length (filter (\<lambda>x. cr_Status x = ''Degraded'') u),
          f + length (filter (\<lambda>x. cr_Status x = ''Failed'') u)))"
proof (induction fs arbitrary: seen h d f)
  case Nil
  then show ?case by simp
next
  case (Cons x fs)
  let ?r = "cr_ResourceRef x"
  show ?case
  proof (cases "mget False seen ?r")
    case True
    then show ?thesis using Cons.IH by simp
  next
    case False
    let ?rest = "filter (\<lambda>y. \<not> mget False seen (cr_ResourceRef y)) fs"
    have "filter (\<lambda>y. \<not> mget False (mset_key ?r True seen) (cr_ResourceRef y)) fs =
        filter (\<lambda>y. cr_ResourceRef y \<noteq> ?r) ?rest"
      by (simp add: filter_filter) (rule filter_cong, auto)
    then have "first_by cr_ResourceRef
        (filter (\<lambda>y. \<not> mget False (mset_key ?r True seen) (cr_ResourceRef y)) fs) =
        filter (\<lambda>y. cr_ResourceRef y \<noteq> ?r) (first_by cr_ResourceRef ?rest)"
      using first_by_filter_key [of cr_ResourceRef "\<lambda>k. k \<noteq> ?r" ?rest] by simp
    then show ?thesis using False Cons.IH by (simp add: Let_def)
  qed
qed

lemma countBySeverity_eq:
  "countBySeverity fs =
     (resources_with ''Healthy'' fs, resources_with ''Degraded'' fs, resources_with ''Failed'' fs)"
  by (simp add: countBySeverity_def count_loop_first_by resources_with_def Let_def)

section \<open>The priority sort\<close>

text \<open>
  The inner loop: \<^verbatim>\<open>findings[j]\<close> moves left while its left neighbour ranks strictly
  higher. The loop index stays within the list, so both reads and both writes are in range.
\<close>

fun sift_left :: "('a \<Rightarrow> int) \<Rightarrow> nat \<Rightarrow> 'a list \<Rightarrow> 'a list" where
  "sift_left rank 0 xs = xs"
| "sift_left rank (Suc j) xs =
     (if rank (xs ! Suc j) < rank (xs ! j)
      then sift_left rank j (xs[j := xs ! Suc j, Suc j := xs ! j]) else xs)"

definition insertion_sort :: "('a \<Rightarrow> int) \<Rightarrow> 'a list \<Rightarrow> 'a list" where
  "insertion_sort rank xs = fold (sift_left rank) [1..<length xs] xs"

definition statusRank :: "(string, int) gomap" where
  "statusRank = [(''Failed'', 0), (''Degraded'', 1), (''Unknown'', 2), (''Healthy'', 3)]"

definition severityRank :: "(severity_level, int) gomap" where
  "severityRank = [(SeverityCritical, 0), (SeverityWarning, 1), (SeverityInfo, 2)]"

definition finding_rank :: "check_result \<Rightarrow> int" where
  "finding_rank f = mget 0 statusRank (cr_Status f) * 10 + mget 0 severityRank (cr_Severity f)"

definition sortFindingsByPriority :: "check_result list \<Rightarrow> check_result list" where
  "sortFindingsByPriority findings = insertion_sort finding_rank findings"

text \<open>Sifting the element after a sorted prefix inserts it behind its equals.\<close>

lemma sift_left_insert:
  "sorted (map rank ys) \<Longrightarrow> sift_left rank (length ys) (ys @ x # zs) =
     filter (\<lambda>y. rank y \<le> rank x) ys @ x # filter (\<lambda>y. rank x < rank y) ys @ zs"
proof (induction ys arbitrary: zs rule: rev_induct)
  case Nil
  then show ?case by simp
next
  case (snoc y ys)
  have sorted: "sorted (map rank ys)" and le: "\<forall>z \<in> set ys. rank z \<le> rank y"
    using snoc.prems by (auto simp: sorted_append)
  show ?case
  proof (cases "rank x < rank y")
    case True
    have "(ys @ y # x # zs)[length ys := x, Suc (length ys) := y] = ys @ x # y # zs"
      by (simp add: list_update_append)
    then have "sift_left rank (length (ys @ [y])) ((ys @ [y]) @ x # zs) =
        sift_left rank (length ys) (ys @ x # y # zs)"
      using True by (simp add: nth_append)
    then show ?thesis using True snoc.IH [OF sorted, of "y # zs"] by simp
  next
    case False
    then have "filter (\<lambda>z. rank z \<le> rank x) ys = ys" "filter (\<lambda>z. rank x < rank z) ys = []"
      using le by (fastforce simp: filter_id_conv filter_empty_conv)+
    with False show ?thesis by (simp add: nth_append)
  qed
qed

lemma sort_key_snoc:
  fixes rank :: "'a \<Rightarrow> int"
  shows "sort_key rank (ys @ [x]) = filter (\<lambda>y. rank y \<le> rank x) (sort_key rank ys) @
    x # filter (\<lambda>y. rank x < rank y) (sort_key rank ys)"
proof (rule properties_for_sort_key)
  have "mset (filter (\<lambda>y. rank y \<le> rank x) zs) + mset (filter (\<lambda>y. rank x < rank y) zs) = mset zs"
    for zs :: "'a list"
    by (induction zs) auto
  then show "mset (filter (\<lambda>y. rank y \<le> rank x) (sort_key rank ys) @
      x # filter (\<lambda>y. rank x < rank y) (sort_key rank ys)) = mset (ys @ [x])"
    by simp
  show "filter (\<lambda>y. rank k = rank y) (filter (\<lambda>y. rank y \<le> rank x) (sort_key rank ys) @
      x # filter (\<lambda>y. rank x < rank y) (sort_key rank ys)) =
    filter (\<lambda>y. rank k = rank y) (ys @ [x])" for k
  proof -
    have stable: "filter (\<lambda>y. rank k = rank y) (sort_key rank ys) = filter (\<lambda>y. rank k = rank y) ys"
      using sort_key_stable [of rank "rank k" ys] by (simp add: eq_commute)
    have "filter (\<lambda>y. rank k = rank y) (filter (\<lambda>y. rank y \<le> rank x) zs) =
        (if rank k \<le> rank x then filter (\<lambda>y. rank k = rank y) zs else [])"
      and "filter (\<lambda>y. rank k = rank y) (filter (\<lambda>y. rank x < rank y) zs) =
        (if rank x < rank k then filter (\<lambda>y. rank k = rank y) zs else [])" for zs :: "'a list"
      by (induction zs) auto
    then show ?thesis using stable by (cases "rank k = rank x") auto
  qed
  have "sorted (map rank (sort_key rank ys))" by simp
  then show "sorted (map rank (filter (\<lambda>y. rank y \<le> rank x) (sort_key rank ys) @
      x # filter (\<lambda>y. rank x < rank y) (sort_key rank ys)))"
    by (auto simp: sorted_append sorted_filter)
qed

lemma insertion_sort_prefix:
  "n < length xs \<Longrightarrow> fold (sift_left rank) [1..<Suc n] xs =
     sort_key rank (take (Suc n) xs) @ drop (Suc n) xs"
proof (induction n)
  case 0
  then show ?case by (cases xs) auto
next
  case (Suc n)
  let ?ys = "sort_key rank (take (Suc n) xs)"
  have split: "drop (Suc n) xs = xs ! Suc n # drop (Suc (Suc n)) xs"
    using Suc.prems by (simp add: Cons_nth_drop_Suc)
  have len: "length ?ys = Suc n" using Suc.prems by simp
  have "fold (sift_left rank) [1..<Suc (Suc n)] xs =
      sift_left rank (Suc n) (?ys @ xs ! Suc n # drop (Suc (Suc n)) xs)"
    using Suc by (simp add: split)
  also have "\<dots> = sort_key rank (take (Suc n) xs @ [xs ! Suc n]) @ drop (Suc (Suc n)) xs"
    using sift_left_insert [of rank ?ys] len by (simp add: sort_key_snoc)
  also have "take (Suc n) xs @ [xs ! Suc n] = take (Suc (Suc n)) xs"
    using Suc.prems by (simp add: take_Suc_conv_app_nth)
  finally show ?case .
qed

lemma insertion_sort_sort_key: "insertion_sort rank xs = sort_key rank xs"
proof (cases "xs = []")
  case True
  then show ?thesis by (simp add: insertion_sort_def)
next
  case False
  then have "length xs - 1 < length xs" "Suc (length xs - 1) = length xs" by auto
  then show ?thesis
    using insertion_sort_prefix [of "length xs - 1" xs rank] by (simp add: insertion_sort_def)
qed

section \<open>The findings cap\<close>

definition maxStatusFindings :: nat where
  "maxStatusFindings = 500"

text \<open>Lines 229 to 237 of Reconcile: (allFindings, statusFindings) after the cap.\<close>

definition cap_findings :: "check_result list \<Rightarrow> check_result list \<times> check_result list" where
  "cap_findings allFindings =
     (if maxStatusFindings < length allFindings
      then (sortFindingsByPriority allFindings,
            take maxStatusFindings (sortFindingsByPriority allFindings))
      else (allFindings, allFindings))"

section \<open>The requeue interval\<close>

fun min_interval_loop :: "check_spec list \<Rightarrow> int32 \<Rightarrow> int32" where
  "min_interval_loop [] m = m"
| "min_interval_loop (s # ss) m =
     min_interval_loop ss
       (if 0 < sint (cs_IntervalSeconds s) \<and> sint (cs_IntervalSeconds s) < sint m
        then cs_IntervalSeconds s else m)"

definition minimumInterval :: "check_spec list \<Rightarrow> int32" where
  "minimumInterval specs =
     (let m = min_interval_loop specs 60 in if sint m < 30 then 30 else m)"

definition positive_intervals :: "check_spec list \<Rightarrow> int list" where
  "positive_intervals specs = filter (\<lambda>i. 0 < i) (map (\<lambda>s. sint (cs_IntervalSeconds s)) specs)"

lemma min_interval_loop_fold:
  "sint (min_interval_loop specs m) = fold min (positive_intervals specs) (sint m)"
  by (induction specs arbitrary: m) (auto simp: positive_intervals_def min_def)

lemma minimumInterval_eq:
  "sint (minimumInterval specs) = max 30 (fold min (positive_intervals specs) 60)"
proof -
  have "sint (60 :: int32) = 60" "sint (30 :: int32) = 30" by simp_all
  then show ?thesis
    by (simp add: minimumInterval_def Let_def min_interval_loop_fold max_def)
qed

lemma fold_min_iff: "(n :: int) \<le> fold min xs k \<longleftrightarrow> n \<le> k \<and> (\<forall>x \<in> set xs. n \<le> x)"
  by (induction xs arbitrary: k) auto

lemma fold_min_le: "fold min xs (k :: int) \<le> k"
  using fold_min_iff [of "fold min xs k" xs k] by simp

section \<open>Properties\<close>

definition sample_finding :: "string \<Rightarrow> string \<Rightarrow> severity_level \<Rightarrow> check_result" where
  "sample_finding ref st sev =
     \<lparr>cr_CheckName = ''check'', cr_Category = CheckCategoryVM, cr_ResourceRef = ref,
      cr_Status = st, cr_Severity = sev, cr_Message = [], cr_LastChecked = None,
      cr_TraceID = [], cr_RemediationApplied = [], cr_RemediationAttempts = 0,
      cr_RunbookURL = []\<rparr>"

text \<open>
  C15. The in-place insertion sort computes the stable sort of the findings by rank: a
  permutation, ordered by rank, with findings of equal rank in their original order.
\<close>
theorem sortFindingsByPriority_stable:
  "sortFindingsByPriority findings = sort_key finding_rank findings"
  by (simp add: sortFindingsByPriority_def insertion_sort_sort_key)

lemma sorted_findings:
  "sorted (map finding_rank (sortFindingsByPriority fs))"
  "mset (sortFindingsByPriority fs) = mset fs" "set (sortFindingsByPriority fs) = set fs"
  by (simp_all add: sortFindingsByPriority_def insertion_sort_sort_key)

lemma sorted_take_drop:
  "sorted (map f xs) \<Longrightarrow> x \<in> set (take n xs) \<Longrightarrow> y \<in> set (drop n xs) \<Longrightarrow> f x \<le> f y"
proof -
  assume s: "sorted (map f xs)" and x: "x \<in> set (take n xs)" and y: "y \<in> set (drop n xs)"
  have "sorted (map f (take n xs) @ map f (drop n xs))"
    using s by (simp only: map_append [symmetric] append_take_drop_id)
  with x y show "f x \<le> f y" by (simp add: sorted_append)
qed

text \<open>
  C22. The cap writes at most 500 findings to the status, drops none unless there are more than
  500, loses none from the full list, and every finding it keeps ranks at least as severe as
  every finding it drops.
\<close>
theorem cap_findings_correct:
  "length (snd (cap_findings fs)) = min 500 (length fs) \<and>
   mset (fst (cap_findings fs)) = mset fs \<and>
   snd (cap_findings fs) = take 500 (fst (cap_findings fs)) \<and>
   (\<forall>x \<in> set (snd (cap_findings fs)). \<forall>y \<in> set (drop 500 (fst (cap_findings fs))).
      finding_rank x \<le> finding_rank y)"
proof (cases "500 < length fs")
  case True
  have "finding_rank x \<le> finding_rank y"
    if "x \<in> set (take 500 (sortFindingsByPriority fs))"
      "y \<in> set (drop 500 (sortFindingsByPriority fs))" for x y
    by (rule sorted_take_drop [OF sorted_findings(1) that])
  moreover have "length (sortFindingsByPriority fs) = length fs"
    using sorted_findings(2) by (metis size_mset)
  ultimately show ?thesis
    using True by (simp add: cap_findings_def maxStatusFindings_def sorted_findings(2))
next
  case False
  then show ?thesis by (simp add: cap_findings_def maxStatusFindings_def)
qed

theorem cap_findings_correct_witness:
  "length (snd (cap_findings (replicate 501 (sample_finding ''r'' ''Failed'' SeverityCritical)))) = 500"
  using cap_findings_correct [THEN conjunct1,
    of "replicate 501 (sample_finding ''r'' ''Failed'' SeverityCritical)"]
  by simp

text \<open>The statuses and severities the sort knows.\<close>

definition known_finding :: "check_result \<Rightarrow> bool" where
  "known_finding f \<longleftrightarrow> cr_Status f \<in> {''Failed'', ''Degraded'', ''Unknown'', ''Healthy''} \<and>
     cr_Severity f \<in> {SeverityCritical, SeverityWarning, SeverityInfo}"

lemma severityRank_range: "mget 0 severityRank sev \<in> {0, 1, 2}"
  by (auto simp: severityRank_def mget_def)

lemma statusRank_Failed:
  "st \<in> {''Failed'', ''Degraded'', ''Unknown'', ''Healthy''} \<Longrightarrow>
     mget 0 statusRank st = 0 \<longleftrightarrow> st = ''Failed''"
  by (auto simp: statusRank_def mget_def)

lemma statusRank_nonneg: "0 \<le> mget 0 statusRank st"
  by (auto simp: statusRank_def mget_def)

lemma rank_Failed: "known_finding f \<Longrightarrow> finding_rank f < 10 \<longleftrightarrow> cr_Status f = ''Failed''"
  using severityRank_range [of "cr_Severity f"] statusRank_Failed [of "cr_Status f"]
    statusRank_nonneg [of "cr_Status f"]
  by (auto simp: finding_rank_def known_finding_def)

text \<open>
  The rank orders known findings by status first (Failed, Degraded, Unknown, Healthy) and by
  severity within a status (Critical, Warning, Info), as the comment on the sort says.
\<close>
theorem finding_rank_lexicographic:
  assumes "known_finding x" and "known_finding y"
  shows "finding_rank x \<le> finding_rank y \<longleftrightarrow>
    mget 0 statusRank (cr_Status x) < mget 0 statusRank (cr_Status y) \<or>
    cr_Status x = cr_Status y \<and>
      mget 0 severityRank (cr_Severity x) \<le> mget 0 severityRank (cr_Severity y)"
proof -
  have "mget 0 statusRank (cr_Status x) = mget 0 statusRank (cr_Status y) \<longleftrightarrow>
      cr_Status x = cr_Status y"
    using assms unfolding known_finding_def by (auto simp: statusRank_def mget_def)
  then show ?thesis
    using severityRank_range [of "cr_Severity x"] severityRank_range [of "cr_Severity y"]
    by (auto simp: finding_rank_def)
qed

theorem finding_rank_lexicographic_witness:
  "finding_rank (sample_finding ''a'' ''Failed'' SeverityInfo) \<le>
     finding_rank (sample_finding ''b'' ''Degraded'' SeverityCritical)"
  by (subst finding_rank_lexicographic)
    (simp_all add: known_finding_def sample_finding_def statusRank_def mget_def)

text \<open>
  C21. The counts are the numbers of resources whose first finding has the status, so together
  they never exceed the number of resources.
\<close>
theorem countBySeverity_correct:
  "countBySeverity fs =
     (resources_with ''Healthy'' fs, resources_with ''Degraded'' fs, resources_with ''Failed'' fs) \<and>
   resources_with ''Healthy'' fs + resources_with ''Degraded'' fs + resources_with ''Failed'' fs
     \<le> card (cr_ResourceRef ` set fs)"
proof -
  have "length (filter (\<lambda>f. cr_Status f = ''Healthy'') us) +
      length (filter (\<lambda>f. cr_Status f = ''Degraded'') us) +
      length (filter (\<lambda>f. cr_Status f = ''Failed'') us) \<le> length us" for us
    by (induction us) auto
  then show ?thesis
    by (metis countBySeverity_eq length_first_by resources_with_def)
qed

text \<open>
  After the priority sort the failed count is exact: it is the number of resources with at
  least one Failed finding (all findings having known statuses and severities).
\<close>
theorem failed_count_after_sort:
  assumes "\<forall>f \<in> set fs. known_finding f"
  shows "snd (snd (countBySeverity (sortFindingsByPriority fs))) =
    card (cr_ResourceRef ` {f \<in> set fs. cr_Status f = ''Failed''})"
proof -
  let ?ss = "sortFindingsByPriority fs"
  let ?u = "first_by cr_ResourceRef ?ss"
  have known: "known_finding f" if "f \<in> set ?ss" for f
    using assms that sorted_findings(3) by blast
  have first: "cr_Status x = ''Failed''"
    if x: "x \<in> set ?u" and y: "y \<in> set ?ss" "cr_Status y = ''Failed''"
      "cr_ResourceRef y = cr_ResourceRef x" for x y
  proof -
    have xs: "x \<in> set ?ss" by (rule subsetD [OF set_first_by x])
    have "find (\<lambda>z. cr_ResourceRef z = cr_ResourceRef x) ?ss = Some x"
      using x by (simp add: first_by_find)
    then obtain i where i: "i < length ?ss" "?ss ! i = x"
      and before: "\<forall>j < i. cr_ResourceRef (?ss ! j) \<noteq> cr_ResourceRef x"
      by (auto simp: find_Some_iff)
    obtain j where j: "j < length ?ss" "?ss ! j = y" using y(1) unfolding in_set_conv_nth by blast
    have "i \<le> j"
    proof (rule ccontr)
      assume "\<not> i \<le> j"
      then have "cr_ResourceRef (?ss ! j) \<noteq> cr_ResourceRef x" using before by simp
      then show False using j(2) y(3) by simp
    qed
    then have "finding_rank x \<le> finding_rank y"
      using sorted_nth_mono [OF sorted_findings(1), of i j fs] i j by simp
    moreover have "finding_rank y < 10" using rank_Failed known y by blast
    ultimately show ?thesis using rank_Failed [OF known [OF xs]] by simp
  qed
  have "cr_ResourceRef ` set (filter (\<lambda>f. cr_Status f = ''Failed'') ?u) =
      cr_ResourceRef ` {f \<in> set fs. cr_Status f = ''Failed''}"
  proof (intro equalityI subsetI)
    fix r assume "r \<in> cr_ResourceRef ` set (filter (\<lambda>f. cr_Status f = ''Failed'') ?u)"
    then obtain x where x: "x \<in> set ?u" "cr_Status x = ''Failed''" "r = cr_ResourceRef x"
      by auto
    have "x \<in> set fs"
      using subsetD [OF set_first_by x(1)] by (simp only: sorted_findings(3))
    with x(2,3) show "r \<in> cr_ResourceRef ` {f \<in> set fs. cr_Status f = ''Failed''}"
      by (intro image_eqI) simp_all
  next
    fix r assume "r \<in> cr_ResourceRef ` {f \<in> set fs. cr_Status f = ''Failed''}"
    then obtain y where y: "y \<in> set fs" "cr_Status y = ''Failed''" "r = cr_ResourceRef y"
      by auto
    have ys: "y \<in> set ?ss" using y(1) by (simp only: sorted_findings(3))
    then have "r \<in> cr_ResourceRef ` set ?u" using y(3) by (simp only: keys_first_by image_eqI)
    then obtain x where x: "x \<in> set ?u" "r = cr_ResourceRef x" by auto
    have "cr_Status x = ''Failed''" by (rule first [OF x(1) ys y(2)]) (use x(2) y(3) in simp)
    with x show "r \<in> cr_ResourceRef ` set (filter (\<lambda>f. cr_Status f = ''Failed'') ?u)"
      by (intro image_eqI) simp_all
  qed
  moreover have "card (set (map cr_ResourceRef (filter (\<lambda>f. cr_Status f = ''Failed'') ?u))) =
      length (map cr_ResourceRef (filter (\<lambda>f. cr_Status f = ''Failed'') ?u))"
    by (rule distinct_card [OF distinct_map_filter [OF distinct_keys_first_by]])
  ultimately show ?thesis by (simp only: countBySeverity_eq resources_with_def snd_conv
      list.set_map length_map)
qed

theorem failed_count_after_sort_witness:
  "snd (snd (countBySeverity (sortFindingsByPriority
     [sample_finding ''r'' ''Healthy'' SeverityInfo, sample_finding ''r'' ''Failed'' SeverityCritical]))) = 1"
proof -
  have "\<forall>f \<in> set [sample_finding ''r'' ''Healthy'' SeverityInfo,
      sample_finding ''r'' ''Failed'' SeverityCritical]. known_finding f"
    by (simp add: known_finding_def sample_finding_def)
  note count = failed_count_after_sort [OF this]
  have "cr_ResourceRef ` {f \<in> set [sample_finding ''r'' ''Healthy'' SeverityInfo,
      sample_finding ''r'' ''Failed'' SeverityCritical]. cr_Status f = ''Failed''} = {''r''}"
    by (force simp: sample_finding_def)
  with count show ?thesis by (simp only: card.insert finite.emptyI) simp
qed

text \<open>
  Without the sort (500 findings or fewer) an earlier finding of the same resource hides a
  failure: a resource reported Healthy first and Failed second counts as healthy only.
\<close>
theorem failure_hidden_by_earlier_finding:
  "countBySeverity [sample_finding ''r'' ''Healthy'' SeverityInfo,
     sample_finding ''r'' ''Failed'' SeverityCritical] = (1, 0, 0)"
  by (simp add: countBySeverity_def sample_finding_def)

text \<open>
  C35. Setting a condition stores exactly the given contents under its type, changes no other
  condition, adds the type if it was absent, and never creates a second entry for a type.
\<close>
theorem setCondition_correct:
  fixes now :: time and condType condStatus reason message :: string
  assumes "distinct (map co_Type (st_Conditions status))"
  defines "cs' \<equiv> st_Conditions (setCondition now condType condStatus reason message status)"
  shows "get_condition cs' condType = (condStatus, reason, message, now) \<and>
    (\<forall>ty. ty \<noteq> condType \<longrightarrow> get_condition cs' ty = get_condition (st_Conditions status) ty) \<and>
    condition_types cs' = insert condType (condition_types (st_Conditions status)) \<and>
    distinct (map co_Type cs')"
  using assms conditions.get_put_all conditions.keys_put_insert
  by (auto simp: setCondition_def cs'_def set_condition_types condition_types_def)

definition two_conditions :: sre_policy_status where
  "two_conditions =
     \<lparr>st_Findings = [], st_ActiveWorkflows = [], st_LastScanTime = None, st_NextScanTime = None,
      st_TotalChecks = 0, st_RemediationsApplied = 0, st_ObservedGeneration = 0,
      st_HealthyCount = 0, st_DegradedCount = 0, st_FailedCount = 0, st_Phase = [],
      st_Conditions =
        [\<lparr>co_Type = ''Ready'', co_Status = ''True'', co_Reason = ''r'', co_Message = ''m'',
          co_LastTransitionTime = 1\<rparr>,
         \<lparr>co_Type = ''OTelHealthy'', co_Status = ''True'', co_Reason = ''r'', co_Message = ''m'',
          co_LastTransitionTime = 2\<rparr>],
      st_OCPClusterHealthy = None, st_FiringAlertCount = 0, st_FiringAlertNames = [],
      st_ObservabilityEndpointReachable = None\<rparr>"

theorem setCondition_correct_witness:
  "get_condition (st_Conditions (setCondition 7 ''Ready'' ''False'' ''x'' ''y'' two_conditions)) ''Ready''
     = (''False'', ''x'', ''y'', 7)"
proof -
  have "distinct (map co_Type (st_Conditions two_conditions))"
    by (simp add: two_conditions_def)
  from setCondition_correct [OF this] show ?thesis by blast
qed

text \<open>
  C34. The requeue interval is the smallest positive interval the checks ask for, but never more
  than 60 seconds, the value used when no check asks for one, and never less than 30. A check
  that leaves its interval unset, or sets it below one, does not count; a disabled check does.
  So the interval lies between 30 and 60 seconds and is never longer than the interval of a
  check that asks for 30 seconds or more.
\<close>
theorem minimumInterval_bounds:
  "sint (minimumInterval specs) =
     max 30 (Min (insert 60 {i \<in> (\<lambda>s. sint (cs_IntervalSeconds s)) ` set specs. 0 < i})) \<and>
   30 \<le> sint (minimumInterval specs) \<and> sint (minimumInterval specs) \<le> 60 \<and>
   (\<forall>s \<in> set specs. 30 \<le> sint (cs_IntervalSeconds s) \<longrightarrow>
      sint (minimumInterval specs) \<le> sint (cs_IntervalSeconds s))"
proof -
  have set_eq: "set (positive_intervals specs) = {i \<in> (\<lambda>s. sint (cs_IntervalSeconds s)) ` set specs. 0 < i}"
    by (auto simp: positive_intervals_def)
  have exact: "sint (minimumInterval specs) = max 30 (Min (insert 60 (set (positive_intervals specs))))"
    by (simp only: minimumInterval_eq Min.set_eq_fold flip: list.simps(15))
  have le: "Min (insert 60 (set (positive_intervals specs))) \<le> i"
    if "i \<in> insert 60 (set (positive_intervals specs))" for i
    using that by (intro Min_le) simp_all
  have "30 \<le> sint (cs_IntervalSeconds s) \<Longrightarrow> s \<in> set specs \<Longrightarrow>
      sint (minimumInterval specs) \<le> sint (cs_IntervalSeconds s)" for s
    using le [of "sint (cs_IntervalSeconds s)"] by (simp add: exact set_eq)
  with exact le [of 60] show ?thesis by (simp add: set_eq)
qed

definition sample_check :: "int32 \<Rightarrow> check_spec" where
  "sample_check i = \<lparr>cs_Name = ''vm'', cs_Category = CheckCategoryVM, cs_Enabled = True,
     cs_Severity = SeverityWarning, cs_Remediation = RemediationNone,
     cs_RemediationWorkflow = None, cs_RunbookURL = [], cs_IntervalSeconds = i\<rparr>"

theorem minimumInterval_bounds_witness:
  "sint (minimumInterval [sample_check 45, sample_check 300]) \<le> 45"
  using minimumInterval_bounds [of "[sample_check 45, sample_check 300]"]
  by (simp add: sample_check_def)

end
