(* ===== verification/Cluster_Api.thy ===== *)
theory Cluster_Api
  imports Api_Types "HOL-Library.State_Monad" "HOL-Library.Sublist"
begin

text \<open>
  Everything outside the program that the code talks to, as one parameter: the Kubernetes API
  (objects, pod logs, events), the clock, files, HTTP, the OpenTelemetry exporters, and the
  third-party or floating-point functions of the libraries. An environment answers each call by
  a function of the calls made so far, so nothing is assumed about what it answers; a program
  part is a state-monad function on that history and appends the calls it makes. The predicate
  \<open>emits\<close> bounds the calls a part can make, \<open>yields\<close> its value, and \<open>ends_at\<close> relates its last call
  to the history before it; their rules follow the program's structure.
\<close>

named_theorems emits_intros \<open>structural rules for the calls a program part can make\<close>

section \<open>Objects of the Kubernetes API the code reads or writes\<close>

datatype api_error = NotFoundError err | OtherError err

fun api_error_msg :: "api_error \<Rightarrow> err" where
  "api_error_msg (NotFoundError m) = m"
| "api_error_msg (OtherError m) = m"

fun is_not_found :: "api_error \<Rightarrow> bool" where
  "is_not_found (NotFoundError m) = True"
| "is_not_found (OtherError m) = False"

record config_map =
  cm_Name :: string
  cm_GenerateName :: string
  cm_Namespace :: string
  cm_Labels :: "(string, string) gomap"
  cm_Data :: "(string, string) gomap"
  cm_CreationTimestamp :: time

record kube_pod =
  kp_Name :: string
  kp_Namespace :: string
  kp_Containers :: "string list"
  kp_InitContainers :: "string list"
  kp_Phase :: string

record log_request =
  lr_Namespace :: string
  lr_Pod :: string
  lr_Container :: string
  lr_TailLines :: int
  lr_SinceSeconds :: int
  lr_Timestamps :: bool

record http_request =
  hr_URL :: string
  hr_Headers :: "(string, string) gomap"

text \<open>A response: status code, and the body or the error of reading it.\<close>

record http_response =
  hp_StatusCode :: int
  hp_Body :: "err + string"

datatype otel_severity = OTelInfo | OTelWarn | OTelError

text \<open>Severities are ordered as in the OpenTelemetry log data model, by severity number.\<close>

fun severity_number :: "otel_severity \<Rightarrow> nat" where
  "severity_number OTelInfo = 9"
| "severity_number OTelWarn = 13"
| "severity_number OTelError = 17"

instantiation otel_severity :: linorder
begin

definition less_eq_otel_severity :: "otel_severity \<Rightarrow> otel_severity \<Rightarrow> bool" where
  "a \<le> b \<longleftrightarrow> severity_number a \<le> severity_number b"

definition less_otel_severity :: "otel_severity \<Rightarrow> otel_severity \<Rightarrow> bool" where
  "a < b \<longleftrightarrow> severity_number a < severity_number b"

instance
proof
  show "a \<le> b \<Longrightarrow> b \<le> a \<Longrightarrow> a = b" for a b :: otel_severity
    by (cases a; cases b) (simp_all add: less_eq_otel_severity_def)
qed (auto simp: less_eq_otel_severity_def less_otel_severity_def)

end

record otlp_record =
  ol_Severity :: otel_severity
  ol_Timestamp :: time
  ol_Body :: string
  ol_Attributes :: "(string \<times> string) list"

section \<open>Calls and the environment\<close>

datatype api_call =
    GetPolicy string string
  | GetGlobalConfig string
  | UpdatePolicy sre_policy
  | UpdateStatus sre_policy
  | ListConfigMaps string "(string, string) gomap"
  | CreateConfigMap config_map
  | DeleteConfigMap config_map
  | ListPods string "(string, string) gomap"
  | StreamLogs log_request
  | RecordEvent string string string
  | ReadClock
  | ReadFile string
  | HttpDo http_request
  | NewExporter string string
  | EmitLog otlp_record

type_synonym history = "api_call list"
type_synonym 'a io = "(history, 'a) state"

record env =
  en_get_policy :: "history \<Rightarrow> string \<Rightarrow> string \<Rightarrow> api_error + sre_policy"
  en_get_global :: "history \<Rightarrow> string \<Rightarrow> api_error + sre_global_config"
  en_update_policy :: "history \<Rightarrow> sre_policy \<Rightarrow> api_error option"
  en_update_status :: "history \<Rightarrow> sre_policy \<Rightarrow> api_error option"
  en_list_config_maps :: "history \<Rightarrow> string \<Rightarrow> (string, string) gomap \<Rightarrow> api_error + config_map list"
  en_create_config_map :: "history \<Rightarrow> config_map \<Rightarrow> api_error option"
  en_delete_config_map :: "history \<Rightarrow> config_map \<Rightarrow> api_error option"
  en_list_pods :: "history \<Rightarrow> string \<Rightarrow> (string, string) gomap \<Rightarrow> api_error + kube_pod list"
  en_stream_logs :: "history \<Rightarrow> log_request \<Rightarrow> err + string"
  en_now :: "history \<Rightarrow> time"
  en_read_file :: "history \<Rightarrow> string \<Rightarrow> err + string"
  en_http :: "history \<Rightarrow> http_request \<Rightarrow> err + http_response"
  en_new_exporter :: "history \<Rightarrow> string \<Rightarrow> string \<Rightarrow> err option"
  en_regexp_compile :: "string \<Rightarrow> (string \<Rightarrow> bool) option"
  en_sort_config_maps :: "config_map list \<Rightarrow> config_map list"
  en_format_seconds :: "duration \<Rightarrow> string"

definition do_call :: "api_call \<Rightarrow> (history \<Rightarrow> 'a) \<Rightarrow> 'a io" where
  "do_call c answer = State (\<lambda>h. (answer h, h @ [c]))"

definition now_io :: "env \<Rightarrow> time io" where
  "now_io env = do_call ReadClock (en_now env)"

lemma run_do_call [simp]: "run_state (do_call c f) h = (f h, h @ [c])"
  by (simp add: do_call_def)

text \<open>A Go range loop over a list with a loop-carried value.\<close>

fun for_each :: "'a list \<Rightarrow> ('a \<Rightarrow> 'b \<Rightarrow> 'b io) \<Rightarrow> 'b \<Rightarrow> 'b io" where
  "for_each [] body acc = State_Monad.return acc"
| "for_each (x # xs) body acc = do { acc' \<leftarrow> body x acc; for_each xs body acc' }"

section \<open>The calls a part can make\<close>

definition emits :: "(api_call \<Rightarrow> bool) \<Rightarrow> 'a io \<Rightarrow> bool" where
  "emits P m \<longleftrightarrow> (\<forall>h. \<exists>cs. snd (run_state m h) = h @ cs \<and> (\<forall>c \<in> set cs. P c))"

lemma emits_return [emits_intros]: "emits P (State_Monad.return x)"
  by (simp add: emits_def)

lemma emits_do_call [emits_intros]: "P c \<Longrightarrow> emits P (do_call c f)"
  by (simp add: emits_def)

lemma emits_bind [emits_intros]:
  assumes "emits P m" and "\<And>x. emits P (f x)"
  shows "emits P (do { x \<leftarrow> m; f x })"
  unfolding emits_def
proof
  fix h
  obtain x h1 where m: "run_state m h = (x, h1)" by fastforce
  obtain cs where cs: "h1 = h @ cs" "\<forall>c \<in> set cs. P c"
    using assms(1) m unfolding emits_def by (metis snd_conv)
  obtain ds where ds: "snd (run_state (f x) h1) = h1 @ ds" "\<forall>c \<in> set ds. P c"
    using assms(2) unfolding emits_def by blast
  have "snd (run_state (do { x \<leftarrow> m; f x }) h) = h @ (cs @ ds)"
    using m cs(1) ds(1) by simp
  moreover have "\<forall>c \<in> set (cs @ ds). P c" using cs(2) ds(2) by auto
  ultimately show "\<exists>cs. snd (run_state (do { x \<leftarrow> m; f x }) h) = h @ cs \<and> (\<forall>c \<in> set cs. P c)"
    by blast
qed

lemma emits_if [emits_intros]:
  "(c \<Longrightarrow> emits P a) \<Longrightarrow> (\<not> c \<Longrightarrow> emits P b) \<Longrightarrow> emits P (if c then a else b)"
  by simp

lemma emits_case_option [emits_intros]:
  "(o' = None \<Longrightarrow> emits P a) \<Longrightarrow> (\<And>x. o' = Some x \<Longrightarrow> emits P (f x)) \<Longrightarrow> emits P (case o' of None \<Rightarrow> a | Some x \<Rightarrow> f x)"
  by (cases o') simp_all

lemma emits_case_sum [emits_intros]:
  "(\<And>x. s = Inl x \<Longrightarrow> emits P (f x)) \<Longrightarrow> (\<And>x. s = Inr x \<Longrightarrow> emits P (g x)) \<Longrightarrow>
     emits P (case s of Inl x \<Rightarrow> f x | Inr x \<Rightarrow> g x)"
  by (cases s) simp_all

lemma emits_case_prod [emits_intros]:
  "(\<And>x y. emits P (f x y)) \<Longrightarrow> emits P (case p of (x, y) \<Rightarrow> f x y)"
  by (cases p) simp

lemma emits_let [emits_intros]: "emits P (f x) \<Longrightarrow> emits P (let y = x in f y)"
  by simp

lemma emits_for_each [emits_intros]:
  "(\<And>x acc. emits P (body x acc)) \<Longrightarrow> emits P (for_each xs body acc)"
  by (induction xs arbitrary: acc) (auto intro!: emits_intros)

lemma emits_mono: "emits P m \<Longrightarrow> (\<And>c. P c \<Longrightarrow> Q c) \<Longrightarrow> emits Q m"
  unfolding emits_def by blast

lemma emits_now [emits_intros]: "P ReadClock \<Longrightarrow> emits P (now_io env)"
  by (simp add: now_io_def emits_do_call)

lemma emitsD:
  assumes "emits P m" and "run_state m h = (x, h')"
  obtains cs where "h' = h @ cs" "\<forall>c \<in> set cs. P c"
  using assms unfolding emits_def by (metis snd_conv)

text \<open>An environment in which nothing exists and nothing fails, for concrete runs.\<close>

definition silent_env :: env where
  "silent_env =
     \<lparr>en_get_policy = (\<lambda>h ns n. Inl (NotFoundError [])),
      en_get_global = (\<lambda>h n. Inl (NotFoundError [])),
      en_update_policy = (\<lambda>h p. None), en_update_status = (\<lambda>h p. None),
      en_list_config_maps = (\<lambda>h ns sel. Inr []),
      en_create_config_map = (\<lambda>h cm. None), en_delete_config_map = (\<lambda>h cm. None),
      en_list_pods = (\<lambda>h ns sel. Inr []), en_stream_logs = (\<lambda>h r. Inr []),
      en_now = (\<lambda>h. 0), en_read_file = (\<lambda>h p. Inl []), en_http = (\<lambda>h r. Inl []),
      en_new_exporter = (\<lambda>h k e. None), en_regexp_compile = (\<lambda>p. None),
      en_sort_config_maps = sort_key cm_CreationTimestamp, en_format_seconds = (\<lambda>d. ''0.0'')\<rparr>"

section \<open>The value a part returns, and its last call\<close>

definition yields :: "('a \<Rightarrow> bool) \<Rightarrow> 'a io \<Rightarrow> bool" where
  "yields R m \<longleftrightarrow> (\<forall>h. R (fst (run_state m h)))"

lemma yields_return: "R x \<Longrightarrow> yields R (State_Monad.return x)"
  by (simp add: yields_def)

lemma yields_any: "(\<And>x. R x) \<Longrightarrow> yields R m"
  by (simp add: yields_def)

lemma yields_bind:
  assumes "yields S m" and "\<And>x. S x \<Longrightarrow> yields R (f x)"
  shows "yields R (do { x \<leftarrow> m; f x })"
  unfolding yields_def
proof
  fix h
  obtain x h1 where m: "run_state m h = (x, h1)" by fastforce
  with assms(1) have "S x" unfolding yields_def by (metis fst_conv)
  with assms(2) m show "R (fst (run_state (do { x \<leftarrow> m; f x }) h))"
    unfolding yields_def by simp
qed

lemma yields_for_each:
  "R acc \<Longrightarrow> (\<And>x acc. x \<in> set xs \<Longrightarrow> R acc \<Longrightarrow> yields R (body x acc)) \<Longrightarrow> yields R (for_each xs body acc)"
proof (induction xs arbitrary: acc)
  case Nil
  then show ?case by (simp add: yields_return)
next
  case (Cons x xs)
  then show ?case unfolding for_each.simps by (intro yields_bind [of R]) simp_all
qed

lemma yieldsD: "yields R m \<Longrightarrow> run_state m h = (x, h') \<Longrightarrow> R x"
  unfolding yields_def by (metis fst_conv)

text \<open>A part may call what its value so far allows.\<close>

lemma emits_bind_yields:
  assumes "emits P m" and "yields R m" and "\<And>x. R x \<Longrightarrow> emits P (f x)"
  shows "emits P (do { x \<leftarrow> m; f x })"
  unfolding emits_def
proof
  fix h
  obtain x h1 where m: "run_state m h = (x, h1)" by fastforce
  obtain cs where cs: "h1 = h @ cs" "\<forall>c \<in> set cs. P c" using emitsD [OF assms(1) m] by blast
  have "R x" using assms(2) m by (rule yieldsD)
  from assms(3) [OF this] obtain ds where
    "snd (run_state (f x) h1) = h1 @ ds" "\<forall>c \<in> set ds. P c" unfolding emits_def by blast
  with m cs show "\<exists>cs. snd (run_state (do { x \<leftarrow> m; f x }) h) = h @ cs \<and> (\<forall>c \<in> set cs. P c)"
    by (intro exI [of _ "cs @ ds"]) auto
qed

lemma yields_outcome: "yields (\<lambda>x. \<exists>h h'. run_state m h = (x, h')) m"
  unfolding yields_def by (metis prod.collapse)

text \<open>The answer of a call, for a part that goes on with it.\<close>

lemma emits_do_call_query:
  assumes "P c" and "\<And>h. emits P (f (g h))"
  shows "emits P (do { x \<leftarrow> do_call c g; f x })"
  using assms(2)
  by (intro emits_bind_yields [OF emits_do_call [of P c, OF assms(1)], where R = "\<lambda>x. \<exists>h. x = g h"])
    (auto simp: yields_def)

lemma emits_for_each_mem:
  "(\<And>x acc. x \<in> set xs \<Longrightarrow> emits P (body x acc)) \<Longrightarrow> emits P (for_each xs body acc)"
proof (induction xs arbitrary: acc)
  case Nil
  then show ?case by (simp add: emits_return)
next
  case (Cons x xs)
  then show ?case unfolding for_each.simps by (intro emits_bind) simp_all
qed

lemma emits_prefix: "emits P m \<Longrightarrow> run_state m h = (x, h') \<Longrightarrow> prefix h h'"
  by (metis emitsD prefix_def)

text \<open>
  A part that, run after a history, ends with a call, and before it makes only calls of a kind:
  the history before the last call, that call, and the result are related.
\<close>

definition ends_at :: "(api_call \<Rightarrow> bool) \<Rightarrow> (history \<Rightarrow> api_call \<Rightarrow> 'a \<Rightarrow> bool) \<Rightarrow> 'a io \<Rightarrow> history \<Rightarrow> bool" where
  "ends_at P Q m h \<longleftrightarrow> (\<exists>cs c. snd (run_state m h) = h @ cs @ [c] \<and> list_all P cs \<and>
     Q (h @ cs) c (fst (run_state m h)))"

lemma ends_atD:
  assumes "ends_at P Q m h" and "run_state m h = (x, h')"
  obtains cs c where "h' = h @ cs @ [c]" "list_all P cs" "Q (h @ cs) c x"
  using assms unfolding ends_at_def by (metis fst_conv snd_conv)

lemma ends_at_return:
  "ends_at P (\<lambda>h c x. Q h c (g x)) m h \<Longrightarrow> ends_at P Q (do { x \<leftarrow> m; State_Monad.return (g x) }) h"
  unfolding ends_at_def by (simp add: split_beta)

lemma ends_at_bind:
  assumes "emits P m" and "\<And>x h1. run_state m h = (x, h1) \<Longrightarrow> prefix h h1 \<Longrightarrow> ends_at P Q (f x) h1"
  shows "ends_at P Q (do { x \<leftarrow> m; f x }) h"
proof -
  obtain x h1 where m: "run_state m h = (x, h1)" by fastforce
  obtain cs where cs: "h1 = h @ cs" "\<forall>c \<in> set cs. P c" using emitsD [OF assms(1) m] by blast
  from assms(2) [OF m emits_prefix [OF assms(1) m]] obtain ds c where
    "snd (run_state (f x) h1) = h1 @ ds @ [c]" "list_all P ds" "Q (h1 @ ds) c (fst (run_state (f x) h1))"
    unfolding ends_at_def by blast
  with m cs show ?thesis unfolding ends_at_def
    by (intro exI [of _ "cs @ ds"] exI [of _ c]) (auto simp: list_all_iff)
qed

lemma ends_at_mono:
  "ends_at P Q m h \<Longrightarrow> (\<And>g c x. prefix h g \<Longrightarrow> Q g c x \<Longrightarrow> S g c x) \<Longrightarrow> ends_at P S m h"
  unfolding ends_at_def by (metis prefixI)

text \<open>The clock was read between two points of a history.\<close>

definition clock_between :: "env \<Rightarrow> history \<Rightarrow> history \<Rightarrow> time \<Rightarrow> bool" where
  "clock_between env g h t \<longleftrightarrow>
     (\<exists>k. prefix g k \<and> prefix (k @ [ReadClock]) h \<and> t = en_now env k)"

lemma clock_between_mono:
  "clock_between env g h t \<Longrightarrow> prefix g' g \<Longrightarrow> prefix h h' \<Longrightarrow> clock_between env g' h' t"
  unfolding clock_between_def by (blast intro: prefix_order.trans)

lemma clock_between_now:
  "run_state (now_io env) k = (t, k') \<Longrightarrow> prefix g k \<Longrightarrow> prefix k' h \<Longrightarrow> clock_between env g h t"
  by (auto simp: now_io_def clock_between_def)

end
