(* ===== verification/Go_Regexp.thy ===== *)
theory Go_Regexp
  imports Go_Prelude
begin

text \<open>
  The regular expressions of internal/diagnostics/logcollector.go: the constructs the seven
  patterns of \<^verbatim>\<open>errorPatterns\<close> use (case-folded literals, alternation, word boundary, \<open>\s\<close>, dot,
  star), a matcher on byte strings, and its declarative semantics. A position is the text
  before it, reversed, and the text after it. Case folding is Go's \<open>(?i)\<close>: besides the two
  cases of an ASCII letter, \<open>k\<close> folds to the Kelvin sign and \<open>s\<close> to the long s, here by
  their UTF-8 bytes. Word boundary and white space are ASCII in Go. Working on bytes is exact:
  every literal byte of the patterns is either ASCII or the first byte of such an encoding, so
  a match never starts or ends inside an encoded character.
\<close>

datatype regex =
    Lit string
  | WordBoundary
  | SpaceChar
  | NotNewline
  | Then regex regex
  | Or regex regex
  | Star regex

definition Plus :: "regex \<Rightarrow> regex" where
  "Plus r = Then r (Star r)"

type_synonym position = "string \<times> string"

definition is_upper :: "char \<Rightarrow> bool" where
  "is_upper c = (65 \<le> (of_char c :: nat) \<and> (of_char c :: nat) \<le> 90)"

definition is_lower :: "char \<Rightarrow> bool" where
  "is_lower c = (97 \<le> (of_char c :: nat) \<and> (of_char c :: nat) \<le> 122)"

definition is_digit :: "char \<Rightarrow> bool" where
  "is_digit c = (48 \<le> (of_char c :: nat) \<and> (of_char c :: nat) \<le> 57)"

definition is_word_char :: "char \<Rightarrow> bool" where
  "is_word_char c = (is_upper c \<or> is_lower c \<or> is_digit c \<or> c = CHR ''_'')"

definition is_space_char :: "char \<Rightarrow> bool" where
  "is_space_char c = (c \<in> {CHR 0x09, CHR 0x0A, CHR 0x0C, CHR 0x0D, CHR 0x20})"

definition lower_char :: "char \<Rightarrow> char" where
  "lower_char c = (if is_upper c then char_of ((of_char c :: nat) + 32) else c)"

definition upper_char :: "char \<Rightarrow> char" where
  "upper_char c = (if is_lower c then char_of ((of_char c :: nat) - 32) else c)"

text \<open>The encodings a case-folded character of a pattern matches.\<close>

definition fold_alternatives :: "char \<Rightarrow> string list" where
  "fold_alternatives c =
     [[c], [lower_char c], [upper_char c]] @
     (if lower_char c = CHR ''k'' then [[CHR 0xE2, CHR 0x84, CHR 0xAA]] else []) @
     (if lower_char c = CHR ''s'' then [[CHR 0xC5, CHR 0xBF]] else [])"

fun lit_ends :: "string \<Rightarrow> position \<Rightarrow> position list" where
  "lit_ends [] p = [p]"
| "lit_ends (c # cs) (before, after) =
     concat (map (\<lambda>e. if has_prefix e after
                      then lit_ends cs (rev e @ before, drop (length e) after) else [])
       (fold_alternatives c))"

definition word_at :: "string \<Rightarrow> bool" where
  "word_at s = (case s of [] \<Rightarrow> False | c # _ \<Rightarrow> is_word_char c)"

definition at_boundary :: "position \<Rightarrow> bool" where
  "at_boundary p = (word_at (fst p) \<noteq> word_at (snd p))"

definition eat :: "(char \<Rightarrow> bool) \<Rightarrow> position \<Rightarrow> position list" where
  "eat P p = (case snd p of [] \<Rightarrow> [] | c # cs \<Rightarrow> if P c then [(c # fst p, cs)] else [])"

text \<open>
  Iteration: each round must consume, so as many rounds as there is text left are enough.
\<close>

fun star_ends :: "(position \<Rightarrow> position list) \<Rightarrow> nat \<Rightarrow> position \<Rightarrow> position list" where
  "star_ends f 0 p = [p]"
| "star_ends f (Suc n) p =
     p # concat (map (star_ends f n) (filter (\<lambda>q. length (snd q) < length (snd p)) (f p)))"

fun ends :: "regex \<Rightarrow> position \<Rightarrow> position list" where
  "ends (Lit s) p = lit_ends s p"
| "ends WordBoundary p = (if at_boundary p then [p] else [])"
| "ends SpaceChar p = eat is_space_char p"
| "ends NotNewline p = eat (\<lambda>c. c \<noteq> CHR 0x0A) p"
| "ends (Then r s) p = concat (map (ends s) (ends r p))"
| "ends (Or r s) p = ends r p @ ends s p"
| "ends (Star r) p = star_ends (ends r) (length (snd p)) p"

fun starts_of :: "position \<Rightarrow> position list" where
  "starts_of (before, []) = [(before, [])]"
| "starts_of (before, c # after) = (before, c # after) # starts_of (c # before, after)"

definition MatchString :: "regex \<Rightarrow> string \<Rightarrow> bool" where
  "MatchString re s = list_ex (\<lambda>p. ends re p \<noteq> []) (starts_of ([], s))"

section \<open>The patterns\<close>

definition alternatives :: "string list \<Rightarrow> regex" where
  "alternatives ws = (case rev ws of [] \<Rightarrow> Lit [] | w # us \<Rightarrow> fold (\<lambda>u r. Or (Lit u) r) us (Lit w))"

definition error_words :: "string list" where
  "error_words = [''error'', ''err'', ''fatal'', ''panic'', ''exception'', ''oom'', ''kill'',
     ''failed'', ''failure'', ''crash'']"

definition errorPatterns :: "regex list" where
  "errorPatterns =
     [Then WordBoundary (Then (alternatives error_words) WordBoundary),
      Then (Lit ''reconcil'') (Then (Star NotNewline) (Lit ''fail'')),
      Then (Lit ''unable'') (Then (Plus SpaceChar) (Lit ''to'')),
      Then (Lit ''permission'') (Then (Plus SpaceChar) (Lit ''denied'')),
      Then (Lit ''connection'') (Then (Plus SpaceChar)
        (alternatives [''refused'', ''reset'', ''timeout''])),
      alternatives [''ImagePullBackOff'', ''ErrImagePull''],
      Lit ''OOMKilled'']"

section \<open>Semantics\<close>

inductive matches :: "regex \<Rightarrow> position \<Rightarrow> position \<Rightarrow> bool" where
  m_lit_nil: "matches (Lit []) p p"
| m_lit_cons: "e \<in> set (fold_alternatives c) \<Longrightarrow>
    matches (Lit cs) (rev e @ before, after) q \<Longrightarrow> matches (Lit (c # cs)) (before, e @ after) q"
| m_boundary: "word_at before \<noteq> word_at after \<Longrightarrow>
    matches WordBoundary (before, after) (before, after)"
| m_space: "is_space_char c \<Longrightarrow> matches SpaceChar (before, c # after) (c # before, after)"
| m_dot: "c \<noteq> CHR 0x0A \<Longrightarrow> matches NotNewline (before, c # after) (c # before, after)"
| m_then: "matches r p q \<Longrightarrow> matches s q t \<Longrightarrow> matches (Then r s) p t"
| m_or1: "matches r p q \<Longrightarrow> matches (Or r s) p q"
| m_or2: "matches s p q \<Longrightarrow> matches (Or r s) p q"
| m_star_nil: "matches (Star r) p p"
| m_star_more: "matches r p q \<Longrightarrow> length (snd q) < length (snd p) \<Longrightarrow>
    matches (Star r) q t \<Longrightarrow> matches (Star r) p t"

inductive_cases matches_litE: "matches (Lit s) p q"
inductive_cases matches_starE: "matches (Star r) p q"

inductive_simps matches_simps:
  "matches WordBoundary p q" "matches (Then r s) p q" "matches (Or r s) p q"
  "matches SpaceChar p q" "matches NotNewline p q" "matches (Lit []) p q"

lemma matches_lit_cons:
  "matches (Lit (c # cs)) (before, after) q \<longleftrightarrow>
     (\<exists>e \<in> set (fold_alternatives c). has_prefix e after \<and>
        matches (Lit cs) (rev e @ before, drop (length e) after) q)"
proof
  assume "matches (Lit (c # cs)) (before, after) q"
  then obtain e t where "e \<in> set (fold_alternatives c)" "after = e @ t"
    "matches (Lit cs) (rev e @ before, t) q"
    by (cases rule: matches_litE) auto
  then show "\<exists>e \<in> set (fold_alternatives c). has_prefix e after \<and>
      matches (Lit cs) (rev e @ before, drop (length e) after) q"
    by (intro bexI [of _ e]) (simp_all add: has_prefix_def)
next
  assume "\<exists>e \<in> set (fold_alternatives c). has_prefix e after \<and>
      matches (Lit cs) (rev e @ before, drop (length e) after) q"
  then obtain e where e: "e \<in> set (fold_alternatives c)" "has_prefix e after"
    "matches (Lit cs) (rev e @ before, drop (length e) after) q" by blast
  have "after = e @ drop (length e) after"
    using e(2) unfolding has_prefix_def by (metis append_take_drop_id)
  with m_lit_cons [OF e(1,3)] show "matches (Lit (c # cs)) (before, after) q" by simp
qed

lemma lit_ends_iff: "q \<in> set (lit_ends s p) \<longleftrightarrow> matches (Lit s) p q"
proof (induction s p rule: lit_ends.induct)
  case (1 p)
  then show ?case by (auto simp: matches_simps)
next
  case (2 c cs before after)
  then show ?case by (auto simp: matches_lit_cons)
qed

lemma star_ends_iff:
  assumes f: "\<And>p q. q \<in> set (f p) \<longleftrightarrow> matches r p q"
  shows "length (snd p) \<le> n \<Longrightarrow> t \<in> set (star_ends f n p) \<longleftrightarrow> matches (Star r) p t"
proof (induction n arbitrary: p)
  case 0
  then have "matches (Star r) p t \<longleftrightarrow> t = p"
    by (auto elim: matches_starE intro: m_star_nil)
  then show ?case by simp
next
  case (Suc n)
  have "matches (Star r) p t \<longleftrightarrow>
      t = p \<or> (\<exists>q. matches r p q \<and> length (snd q) < length (snd p) \<and> matches (Star r) q t)"
    by (blast elim: matches_starE intro: m_star_nil m_star_more)
  moreover have "t \<in> set (star_ends f n q) \<longleftrightarrow> matches (Star r) q t"
    if "length (snd q) < length (snd p)" for q
    using Suc that by simp
  ultimately show ?case by (auto simp: f)
qed

lemma ends_iff: "q \<in> set (ends re p) \<longleftrightarrow> matches re p q"
proof (induction re arbitrary: p q)
  case (Lit s)
  then show ?case by (simp add: lit_ends_iff)
next
  case WordBoundary
  then show ?case by (cases p) (auto simp: matches_simps at_boundary_def)
next
  case SpaceChar
  then show ?case by (cases p) (auto simp: matches_simps eat_def split: list.splits)
next
  case NotNewline
  then show ?case by (cases p) (auto simp: matches_simps eat_def split: list.splits)
next
  case (Then r s)
  have "q \<in> set (ends (Then r s) p) \<longleftrightarrow> (\<exists>t. t \<in> set (ends r p) \<and> q \<in> set (ends s t))"
    by (simp add: Bex_def del: split_paired_Ex)
  then show ?case by (simp add: Then matches_simps del: ends.simps)
next
  case (Or r s)
  then show ?case by (auto simp: matches_simps)
next
  case (Star r)
  then show ?case using star_ends_iff [of "ends r" r p "length (snd p)" q] by simp
qed

lemma starts_of_iff: "p \<in> set (starts_of (b, s)) \<longleftrightarrow> (\<exists>u v. s = u @ v \<and> p = (rev u @ b, v))"
proof (induction s arbitrary: b)
  case Nil
  then show ?case by auto
next
  case (Cons c s)
  have "(\<exists>u v. c # s = u @ v \<and> p = (rev u @ b, v)) \<longleftrightarrow>
      p = (b, c # s) \<or> (\<exists>u v. s = u @ v \<and> p = (rev u @ c # b, v))"
    by (auto simp: Cons_eq_append_conv)
  with Cons show ?case by simp
qed

lemma MatchString_iff:
  "MatchString re s \<longleftrightarrow> (\<exists>u v q. s = u @ v \<and> matches re (rev u, v) q)"
proof -
  have "MatchString re s \<longleftrightarrow> (\<exists>p \<in> set (starts_of ([], s)). \<exists>q. q \<in> set (ends re p))"
    by (simp only: MatchString_def list_ex_iff ex_in_conv set_empty)
  also have "\<dots> \<longleftrightarrow> (\<exists>p \<in> set (starts_of ([], s)). \<exists>q. matches re p q)"
    by (simp only: ends_iff)
  also have "\<dots> \<longleftrightarrow> (\<exists>u v q. s = u @ v \<and> matches re (rev u, v) q)"
    unfolding Bex_def starts_of_iff by auto
  finally show ?thesis .
qed

section \<open>Literals and alternatives\<close>

lemma alternatives_Cons:
  "ws \<noteq> [] \<Longrightarrow> alternatives (w # ws) = Or (Lit w) (alternatives ws)"
  by (cases "rev ws") (simp_all add: alternatives_def)

lemma matches_alternatives:
  "ws \<noteq> [] \<Longrightarrow> matches (alternatives ws) p q \<longleftrightarrow> (\<exists>w \<in> set ws. matches (Lit w) p q)"
proof (induction ws)
  case Nil
  then show ?case by simp
next
  case (Cons w ws)
  show ?case
  proof (cases "ws = []")
    case True
    then show ?thesis by (simp add: alternatives_def)
  next
    case False
    with Cons show ?thesis by (simp add: alternatives_Cons matches_simps)
  qed
qed

text \<open>A literal matches its own text in any letter case.\<close>

lemma lower_char_cases:
  assumes "lower_char x = c" and "is_lower c"
  shows "x = c \<or> x = upper_char c"
proof (cases "is_upper x")
  case True
  then have "c = char_of ((of_char x :: nat) + 32)" using assms(1) by (simp add: lower_char_def)
  moreover have "(of_char x :: nat) + 32 < 256" using True by (simp add: is_upper_def)
  ultimately have "(of_char c :: nat) = of_char x + 32" by simp
  then have "upper_char c = x" using assms(2) by (simp add: upper_char_def)
  then show ?thesis by simp
next
  case False
  then show ?thesis using assms(1) by (simp add: lower_char_def)
qed

lemma matches_any_case:
  "list_all is_lower w \<Longrightarrow> map lower_char u = w \<Longrightarrow>
     matches (Lit w) (before, u @ after) (rev u @ before, after)"
proof (induction w arbitrary: u before)
  case Nil
  then show ?case by (simp add: m_lit_nil)
next
  case (Cons c w)
  then obtain x v where u: "u = x # v" "lower_char x = c" "map lower_char v = w" by auto
  have "[x] \<in> set (fold_alternatives c)"
    using lower_char_cases [OF u(2)] Cons.prems(1) by (auto simp: fold_alternatives_def)
  moreover have "matches (Lit w) (rev [x] @ before, v @ after) (rev v @ rev [x] @ before, after)"
    using Cons.IH Cons.prems(1) u(3) by simp
  ultimately have "matches (Lit (c # w)) (before, [x] @ v @ after) (rev v @ rev [x] @ before, after)"
    by (rule m_lit_cons)
  then show ?case by (simp add: u(1))
qed

definition isolated :: "string \<Rightarrow> string \<Rightarrow> bool" where
  "isolated before after =
     ((before = [] \<or> \<not> is_word_char (last before)) \<and> (after = [] \<or> \<not> is_word_char (hd after)))"

lemma error_words_lower: "w \<in> set error_words \<Longrightarrow> list_all is_lower w \<and> w \<noteq> []"
  by (auto simp: error_words_def is_lower_def)

lemma is_word_lower: "is_lower (lower_char x) \<Longrightarrow> is_word_char x"
  by (cases "is_upper x") (auto simp: is_word_char_def lower_char_def)

lemma error_word_matches:
  assumes u: "map lower_char u \<in> set error_words" and iso: "isolated before after"
  shows "MatchString (hd errorPatterns) (before @ u @ after)"
proof -
  let ?w = "map lower_char u"
  have w: "list_all is_lower ?w" "u \<noteq> []" using error_words_lower [OF u] by auto
  then have "is_word_char (hd u)" "is_word_char (last u)"
    by (auto simp: list_all_iff intro!: is_word_lower)
  moreover have "word_at (rev before) = (before \<noteq> [] \<and> is_word_char (last before))"
    by (cases before rule: rev_cases) (simp_all add: word_at_def)
  moreover have "word_at after = (after \<noteq> [] \<and> is_word_char (hd after))"
    by (cases after) (simp_all add: word_at_def)
  moreover have "word_at (u @ after) = is_word_char (hd u)"
    using w(2) by (cases u) (simp_all add: word_at_def)
  moreover have "word_at (rev u @ rev before) = is_word_char (last u)"
    using w(2) by (cases u rule: rev_cases) (simp_all add: word_at_def)
  ultimately have "word_at (rev before) \<noteq> word_at (u @ after)"
    and "word_at (rev u @ rev before) \<noteq> word_at after"
    using iso by (auto simp: isolated_def)
  then have b: "matches WordBoundary (rev before, u @ after) (rev before, u @ after)"
    "matches WordBoundary (rev u @ rev before, after) (rev u @ rev before, after)"
    by (auto intro: m_boundary)
  have "matches (alternatives error_words) (rev before, u @ after) (rev u @ rev before, after)"
    using matches_any_case [OF w(1) refl] u matches_alternatives [of error_words]
    by (fastforce simp: error_words_def)
  with b have "matches (hd errorPatterns) (rev before, u @ after) (rev u @ rev before, after)"
    unfolding errorPatterns_def list.sel by (intro m_then)
  then show ?thesis unfolding MatchString_iff by blast
qed

end
