(* ===== verification/Go_Text.thy ===== *)
theory Go_Text
  imports Go_Regexp
begin

text \<open>
  Text functions of the Go standard library that the components share: the part of
  \<^verbatim>\<open>strings.ToLower\<close> that an ASCII search can see, \<^verbatim>\<open>url.QueryEscape\<close> with
  its inverse, and the RFC 3339 form of an instant in UTC.
\<close>

section \<open>Lower case\<close>

text \<open>
  \<^verbatim>\<open>strings.ToLower\<close> up to non-ASCII text: besides the ASCII letters, the Kelvin sign
  and the dotted capital I are the only characters whose lower case is ASCII. The code only
  searches the result for ASCII words, which other characters cannot be part of.
\<close>

fun lower_text :: "string \<Rightarrow> string" where
  "lower_text [] = []"
| "lower_text (c # s) =
     (if c = CHR 0xE2 \<and> has_prefix [CHR 0x84, CHR 0xAA] s then CHR ''k'' # lower_text (drop 2 s)
      else if c = CHR 0xC4 \<and> has_prefix [CHR 0xB0] s then CHR ''i'' # lower_text (drop 1 s)
      else lower_char c # lower_text s)"

section \<open>Query escaping\<close>

definition hex_digit :: "nat \<Rightarrow> char" where
  "hex_digit n = char_of (if n < 10 then 48 + n else 55 + n)"

definition unreserved :: "char \<Rightarrow> bool" where
  "unreserved c = (is_upper c \<or> is_lower c \<or> is_digit c \<or> c \<in> set ''-_.~'')"

definition escape_char :: "char \<Rightarrow> string" where
  "escape_char c =
     (if unreserved c then [c]
      else if c = CHR 0x20 then ''+''
      else [CHR 0x25, hex_digit ((of_char c :: nat) div 16), hex_digit ((of_char c :: nat) mod 16)])"

definition QueryEscape :: "string \<Rightarrow> string" where
  "QueryEscape s = concat (map escape_char s)"

definition hex_value :: "char \<Rightarrow> nat" where
  "hex_value c = (if is_digit c then of_char c - 48 else of_char c - 55)"

fun query_unescape :: "string \<Rightarrow> string" where
  "query_unescape [] = []"
| "query_unescape (c # s) =
     (if c = CHR 0x25 then
        (case s of a # b # t \<Rightarrow> char_of (hex_value a * 16 + hex_value b) # query_unescape t
         | _ \<Rightarrow> [])
      else if c = CHR 0x2B then CHR 0x20 # query_unescape s
      else c # query_unescape s)"

lemma hex_value_digit: "n < 16 \<Longrightarrow> hex_value (hex_digit n) = n"
  by (auto simp: hex_value_def hex_digit_def is_digit_def)

lemma hex_digit_unreserved: "n < 16 \<Longrightarrow> unreserved (hex_digit n)"
  by (auto simp: hex_digit_def unreserved_def is_digit_def is_upper_def)

lemma high_digit: "(of_char c :: nat) div 16 < 16"
  using nat_of_char_less_256 [of c] by linarith

lemma unescape_char: "query_unescape (escape_char c @ s) = c # query_unescape s"
proof (cases "unreserved c")
  case True
  then have "c \<noteq> CHR 0x25" "c \<noteq> CHR 0x2B"
    by (auto simp: unreserved_def is_upper_def is_lower_def is_digit_def)
  with True show ?thesis by (simp add: escape_char_def)
next
  case False
  have "(of_char c :: nat) div 16 < 16" by (rule high_digit)
  then show ?thesis using False by (simp add: escape_char_def hex_value_digit)
qed

lemma unescape_escape: "query_unescape (QueryEscape s) = s"
  by (induction s) (simp_all add: QueryEscape_def unescape_char)

lemma escape_char_chars:
  "c \<in> set (escape_char x) \<Longrightarrow> unreserved c \<or> c = CHR 0x25 \<or> c = CHR 0x2B"
proof (cases "unreserved x")
  case True
  then show "c \<in> set (escape_char x) \<Longrightarrow> ?thesis" by (simp add: escape_char_def)
next
  case False
  have "unreserved (hex_digit ((of_char x :: nat) div 16))"
    "unreserved (hex_digit ((of_char x :: nat) mod 16))"
    by (rule hex_digit_unreserved, rule high_digit, rule hex_digit_unreserved, simp)
  then show "c \<in> set (escape_char x) \<Longrightarrow> ?thesis"
    using False by (cases "x = CHR 0x20") (auto simp: escape_char_def simp del: of_char_of)
qed

lemma QueryEscape_chars:
  "c \<in> set (QueryEscape s) \<Longrightarrow> unreserved c \<or> c = CHR 0x25 \<or> c = CHR 0x2B"
  unfolding QueryEscape_def by (auto dest!: escape_char_chars)

section \<open>RFC 3339\<close>

definition padded :: "nat \<Rightarrow> nat \<Rightarrow> string" where
  "padded w n = (let s = nat_str n in replicate (w - length s) (CHR ''0'') @ s)"

definition padded_int :: "nat \<Rightarrow> int \<Rightarrow> string" where
  "padded_int w i = (if i < 0 then ''-'' @ padded w (nat (- i)) else padded w (nat i))"

text \<open>The proleptic Gregorian date of a day counted from 1970-01-01: (year, month, day).\<close>

definition civil_date :: "int \<Rightarrow> int \<times> nat \<times> nat" where
  "civil_date days =
     (let z = days + 719468;
          era = z div 146097;
          doe = z mod 146097;
          yoe = (doe - doe div 1460 + doe div 36524 - doe div 146096) div 365;
          doy = doe - (365 * yoe + yoe div 4 - yoe div 100);
          mp = (5 * doy + 2) div 153;
          d = doy - (153 * mp + 2) div 5 + 1;
          m = if mp < 10 then mp + 3 else mp - 9
      in (yoe + era * 400 + (if m \<le> 2 then 1 else 0), nat m, nat d))"

definition rfc3339 :: "time \<Rightarrow> string" where
  "rfc3339 t =
     (let secs = t div second;
          (y, m, d) = civil_date (secs div 86400);
          sod = nat (secs mod 86400)
      in padded_int 4 y @ ''-'' @ padded 2 m @ ''-'' @ padded 2 d @ ''T'' @
         padded 2 (sod div 3600) @ '':'' @ padded 2 (sod mod 3600 div 60) @ '':'' @
         padded 2 (sod mod 60) @ ''Z'')"

lemma nat_str_digit: "n < 10 \<Longrightarrow> nat_str n = [char_of (48 + n)]"
  by (subst nat_str.simps) simp

lemma nat_str_step: "\<not> n < 10 \<Longrightarrow> nat_str n = nat_str (n div 10) @ [char_of (48 + n mod 10)]"
  by (subst nat_str.simps) simp

lemmas nat_str_eval = nat_str_digit nat_str_step

lemma civil_leap_day: "civil_date 11016 = (2000, 2, 29)"
  by code_simp

lemma rfc3339_leap_day: "rfc3339 (951825599 * second) = ''2000-02-29T11:59:59Z''"
  by (simp add: rfc3339_def civil_leap_day padded_int_def padded_def nat_str_eval) code_simp

section \<open>Truncation to a number of characters\<close>

text \<open>
  The width in bytes of the first UTF-8 character, 1 for an invalid byte
  (\<^verbatim>\<open>utf8.DecodeRune\<close>), and the \<^verbatim>\<open>%.500s\<close> of package fmt, whose
  precision counts characters.
\<close>

definition byte_in :: "nat \<Rightarrow> nat \<Rightarrow> char \<Rightarrow> bool" where
  "byte_in lo hi c = (lo \<le> (of_char c :: nat) \<and> (of_char c :: nat) \<le> hi)"

definition second_byte_ok :: "char \<Rightarrow> char \<Rightarrow> bool" where
  "second_byte_ok a b =
     (if a = CHR 0xE0 then byte_in 160 191 b
      else if a = CHR 0xED then byte_in 128 159 b
      else if a = CHR 0xF0 then byte_in 144 191 b
      else if a = CHR 0xF4 then byte_in 128 143 b
      else byte_in 128 191 b)"

definition rune_width :: "string \<Rightarrow> nat" where
  "rune_width s =
     (case s of
        a # b # c # d # _ \<Rightarrow>
          (if byte_in 194 223 a \<and> second_byte_ok a b then 2
           else if byte_in 224 239 a \<and> second_byte_ok a b \<and> byte_in 128 191 c then 3
           else if byte_in 240 244 a \<and> second_byte_ok a b \<and> byte_in 128 191 c \<and>
             byte_in 128 191 d then 4 else 1)
      | [a, b, c] \<Rightarrow>
          (if byte_in 194 223 a \<and> second_byte_ok a b then 2
           else if byte_in 224 239 a \<and> second_byte_ok a b \<and> byte_in 128 191 c then 3 else 1)
      | [a, b] \<Rightarrow> (if byte_in 194 223 a \<and> second_byte_ok a b then 2 else 1)
      | _ \<Rightarrow> 1)"

fun take_runes :: "nat \<Rightarrow> string \<Rightarrow> string" where
  "take_runes 0 s = []"
| "take_runes (Suc n) [] = []"
| "take_runes (Suc n) (c # s) =
     take (rune_width (c # s)) (c # s) @ take_runes n (drop (rune_width (c # s)) (c # s))"

lemma rune_width_le: "rune_width s \<le> 4"
  by (simp add: rune_width_def split: list.split)

lemma length_take_runes: "length (take_runes n s) \<le> 4 * n"
proof (induction n s rule: take_runes.induct)
  case (3 n c s)
  have "length (take (rune_width (c # s)) (c # s)) \<le> 4"
    using rune_width_le [of "c # s"] by simp
  with 3 show ?case by simp
qed simp_all

lemma take_runes_prefix: "\<exists>t. s = take_runes n s @ t"
proof (induction n s rule: take_runes.induct)
  case (3 n c s)
  then obtain t where "drop (rune_width (c # s)) (c # s) =
      take_runes n (drop (rune_width (c # s)) (c # s)) @ t" by blast
  then show ?case by (metis append_assoc append_take_drop_id take_runes.simps(3))
qed simp_all

section \<open>Truncation of a float64\<close>

text \<open>
  \<^verbatim>\<open>int64(f)\<close> of a float64 given by its bits: the integer part when it fits, and the
  value amd64 gives otherwise (out of range, infinite, not a number).
\<close>

definition float_integer_part :: "64 word \<Rightarrow> int" where
  "float_integer_part w =
     (let b = uint w; neg = b div 2 ^ 63 = 1; e = b div 2 ^ 52 mod 2 ^ 11; m = b mod 2 ^ 52;
          mag = (if e = 0 then 0
                 else if 1075 \<le> e then (2 ^ 52 + m) * 2 ^ nat (e - 1075)
                 else (2 ^ 52 + m) div 2 ^ nat (1075 - e))
      in if neg then - mag else mag)"

definition float_to_int64 :: "64 word \<Rightarrow> int64" where
  "float_to_int64 w =
     (let i = float_integer_part w
      in if - (2 ^ 63) \<le> i \<and> i < 2 ^ 63 then word_of_int i else word_of_int (- (2 ^ 63)))"

end
