(* ===== verification/Log_Collector.thy ===== *)
theory Log_Collector
  imports Cluster_Api Go_Text
begin

text \<open>
  internal/diagnostics/logcollector.go: which pods are asked for logs, how a stream is cut into
  lines and filtered, and how the lines kept become findings and a report. The API calls go
  through the environment; of \<open>bufio.Scanner\<close> what the source uses is modelled, lines up to
  the buffer limit the source sets. The tracing spans the collector opens have no effect on any value and are left out.
\<close>

section \<open>Data\<close>

definition maxLogLines :: int where "maxLogLines = 200"
definition maxErrLinesPerContainer :: nat where "maxErrLinesPerContainer = 50"
definition max_token :: nat where "max_token = 512 * 1024"

record pod_log_entry =
  le_Namespace :: string
  le_PodName :: string
  le_ContainerName :: string
  le_Line :: string
  le_CollectedAt :: time

record log_collection =
  lo_VMPodLogs :: "pod_log_entry list"
  lo_OperatorLogs :: "pod_log_entry list"
  lo_CollectedAt :: time
  lo_Errors :: "err list"

section \<open>Lines\<close>

definition drop_cr :: "string \<Rightarrow> string" where
  "drop_cr l = (if l \<noteq> [] \<and> last l = CHR 0x0D then butlast l else l)"

text \<open>
  The lines of a stream: split at newlines, the empty rest after the last newline dropped. The
  scanner stops at the first line that does not fit its buffer.
\<close>

definition raw_lines :: "string \<Rightarrow> string list" where
  "raw_lines s = (let ls = split_on (CHR 0x0A) s in if last ls = [] then butlast ls else ls)"

definition scan_lines :: "string \<Rightarrow> string list" where
  "scan_lines s = map drop_cr (takeWhile (\<lambda>l. length l < max_token) (raw_lines s))"

fun matchesAnyPattern :: "string \<Rightarrow> (string \<Rightarrow> bool) list \<Rightarrow> bool" where
  "matchesAnyPattern line [] = False"
| "matchesAnyPattern line (re # res) = (if re line then True else matchesAnyPattern line res)"

definition stripKubeTimestamp :: "string \<Rightarrow> string" where
  "stripKubeTimestamp line =
     (if 30 < length line \<and> line ! 10 = CHR ''T''
      then (case index_of (CHR 0x20) line of
              Some idx \<Rightarrow> if 0 < idx then trim_space (drop (idx + 1) line) else line
            | None \<Rightarrow> line)
      else line)"

definition truncate_str :: "string \<Rightarrow> nat \<Rightarrow> string" where
  "truncate_str s n = (if length s \<le> n then s else take n s)"

definition classifyLogSeverity :: "string \<Rightarrow> severity_level" where
  "classifyLogSeverity line =
     (let lower = lower_text line
      in if contains_sub ''panic'' lower \<or> contains_sub ''fatal'' lower \<or>
            contains_sub ''oom'' lower \<or> contains_sub ''kill'' lower
         then SeverityCritical else SeverityWarning)"

fun parse_parts :: "string list \<Rightarrow> (string, string) gomap \<Rightarrow> (string, string) gomap" where
  "parse_parts [] m = m"
| "parse_parts (part # parts) m =
     parse_parts parts
       (case split_first (CHR ''='') (trim_space part) of
          [k, v] \<Rightarrow> mset_key k v m
        | _ \<Rightarrow> m)"

definition parseSelector :: "string \<Rightarrow> (string, string) gomap" where
  "parseSelector selector = parse_parts (split_on (CHR '','') selector) []"

section \<open>Collection\<close>

text \<open>Patterns of the specification that do not compile are ignored.\<close>

fun compile_patterns :: "env \<Rightarrow> string list \<Rightarrow> (string \<Rightarrow> bool) list" where
  "compile_patterns env [] = []"
| "compile_patterns env (p # ps) =
     (case en_regexp_compile env p of
        Some re \<Rightarrow> re # compile_patterns env ps
      | None \<Rightarrow> compile_patterns env ps)"

definition all_patterns :: "env \<Rightarrow> log_collection_spec \<Rightarrow> (string \<Rightarrow> bool) list" where
  "all_patterns env spec =
     map MatchString errorPatterns @ compile_patterns env (lc_ErrorPatterns spec)"

fun filter_loop :: "(string \<Rightarrow> bool) list \<Rightarrow> (string \<Rightarrow> pod_log_entry) \<Rightarrow> string list \<Rightarrow> nat
    \<Rightarrow> pod_log_entry list \<Rightarrow> pod_log_entry list" where
  "filter_loop patterns mk [] cnt entries = entries"
| "filter_loop patterns mk (line # ls) cnt entries =
     (if maxErrLinesPerContainer \<le> cnt then entries
      else if \<not> matchesAnyPattern line patterns then filter_loop patterns mk ls cnt entries
      else filter_loop patterns mk ls (cnt + 1) (entries @ [mk (stripKubeTimestamp line)]))"

definition filterLogLines :: "env \<Rightarrow> string \<Rightarrow> string \<Rightarrow> string \<Rightarrow> string \<Rightarrow> log_collection_spec
    \<Rightarrow> pod_log_entry list io" where
  "filterLogLines env stream namespace podName containerName spec = do {
     now \<leftarrow> now_io env;
     State_Monad.return (filter_loop (all_patterns env spec)
       (\<lambda>line. \<lparr>le_Namespace = namespace, le_PodName = podName, le_ContainerName = containerName,
                le_Line = line, le_CollectedAt = now\<rparr>)
       (scan_lines stream) 0 [])
   }"

definition pod_containers :: "kube_pod \<Rightarrow> string list" where
  "pod_containers pod =
     kp_Containers pod @ (if kp_Phase pod = ''Failed'' then kp_InitContainers pod else [])"

definition log_request_for :: "log_collection_spec \<Rightarrow> kube_pod \<Rightarrow> string \<Rightarrow> log_request" where
  "log_request_for spec pod container =
     \<lparr>lr_Namespace = kp_Namespace pod, lr_Pod = kp_Name pod, lr_Container = container,
      lr_TailLines = (if 0 < sint (lc_TailLines spec) then sint (lc_TailLines spec) else maxLogLines),
      lr_SinceSeconds = (if 0 < sint (lc_SinceSeconds spec) then sint (lc_SinceSeconds spec) else 300),
      lr_Timestamps = True\<rparr>"

definition collect_container :: "env \<Rightarrow> log_collection_spec \<Rightarrow> kube_pod \<Rightarrow> string
    \<Rightarrow> pod_log_entry list io" where
  "collect_container env spec pod container = do {
     stream \<leftarrow> do_call (StreamLogs (log_request_for spec pod container))
       (\<lambda>h. en_stream_logs env h (log_request_for spec pod container));
     (case stream of
        Inl e \<Rightarrow> State_Monad.return []
      | Inr body \<Rightarrow> filterLogLines env body (kp_Namespace pod) (kp_Name pod) container spec)
   }"

text \<open>The error result of \<^verbatim>\<open>collectPodLogs\<close> is always nil; its callers handle one.\<close>

definition collectPodLogs :: "env \<Rightarrow> kube_pod \<Rightarrow> log_collection_spec
    \<Rightarrow> (err + pod_log_entry list) io" where
  "collectPodLogs env pod spec = do {
     entries \<leftarrow> for_each (pod_containers pod)
       (\<lambda>container entries. do {
          es \<leftarrow> collect_container env spec pod container;
          State_Monad.return (entries @ es) })
       [];
     State_Monad.return (Inr entries)
   }"

definition collect_pods :: "env \<Rightarrow> log_collection_spec \<Rightarrow> kube_pod list
    \<Rightarrow> pod_log_entry list \<times> err list \<Rightarrow> (pod_log_entry list \<times> err list) io" where
  "collect_pods env spec pods acc =
     for_each pods (\<lambda>pod acc. do {
       r \<leftarrow> collectPodLogs env pod spec;
       State_Monad.return
         (case r of
            Inl e \<Rightarrow> (fst acc, snd acc @ [kp_Namespace pod @ ''/'' @ kp_Name pod @ '': '' @ e])
          | Inr es \<Rightarrow> (fst acc @ es, snd acc)) }) acc"

definition vm_selectors :: "string list" where
  "vm_selectors = [''kubevirt.io=virt-launcher'', ''kubevirt.io=virt-handler'',
     ''app=containerized-data-importer'']"

definition operator_selectors :: "(string \<times> string) list" where
  "operator_selectors =
     [(''openshift-cnv'', ''app=hyperconverged-cluster-operator''),
      (''openshift-cnv'', ''app=virt-operator''),
      (''openshift-cnv'', ''name=cdi-operator''),
      (''openshift-cnv'', ''app=ssp-operator''),
      (''openshift-cnv'', ''app=node-maintenance-operator''),
      (''kubevirt'', ''kubevirt.io=virt-operator'')]"

definition list_pods :: "env \<Rightarrow> string \<Rightarrow> string \<Rightarrow> (api_error + kube_pod list) io" where
  "list_pods env ns selector =
     do_call (ListPods ns (parseSelector selector))
       (\<lambda>h. en_list_pods env h ns (parseSelector selector))"

definition collectVMPodLogs :: "env \<Rightarrow> string list \<Rightarrow> log_collection_spec
    \<Rightarrow> (pod_log_entry list \<times> err list) io" where
  "collectVMPodLogs env namespaces spec =
     for_each namespaces (\<lambda>ns. for_each vm_selectors (\<lambda>selector acc. do {
       r \<leftarrow> list_pods env ns selector;
       (case r of
          Inl e \<Rightarrow> State_Monad.return (fst acc,
            snd acc @ [''list pods ('' @ selector @ '') in '' @ ns @ '': '' @ api_error_msg e])
        | Inr pods \<Rightarrow> collect_pods env spec pods acc) })) ([], [])"

definition collectOperatorLogs :: "env \<Rightarrow> log_collection_spec
    \<Rightarrow> (pod_log_entry list \<times> err list) io" where
  "collectOperatorLogs env spec =
     for_each operator_selectors (\<lambda>sel acc. do {
       r \<leftarrow> list_pods env (fst sel) (snd sel);
       (case r of
          Inl e \<Rightarrow> State_Monad.return acc
        | Inr pods \<Rightarrow> collect_pods env spec pods acc) }) ([], [])"

text \<open>\<^verbatim>\<open>Collect\<close> never returns an error; its caller handles one.\<close>

definition Collect :: "env \<Rightarrow> log_collection_spec \<Rightarrow> string list \<Rightarrow> (err + log_collection) io" where
  "Collect env spec targetNamespaces = do {
     now \<leftarrow> now_io env;
     vm \<leftarrow> (if lc_CollectVMPodLogs spec then collectVMPodLogs env targetNamespaces spec
           else State_Monad.return ([], []));
     ops \<leftarrow> (if lc_CollectOperatorLogs spec then collectOperatorLogs env spec
            else State_Monad.return ([], []));
     State_Monad.return (Inr
       \<lparr>lo_VMPodLogs = fst vm, lo_OperatorLogs = fst ops, lo_CollectedAt = now,
        lo_Errors = snd vm @ snd ops\<rparr>)
   }"

section \<open>Findings and report\<close>

definition entry_ref :: "pod_log_entry \<Rightarrow> string" where
  "entry_ref e = le_Namespace e @ ''/'' @ le_PodName e @ ''['' @ le_ContainerName e @ '']''"

definition entry_key :: "pod_log_entry \<Rightarrow> string" where
  "entry_key e = entry_ref e @ '':'' @ truncate_str (le_Line e) 80"

definition log_result :: "string \<Rightarrow> time \<Rightarrow> string \<Rightarrow> string \<Rightarrow> severity_level \<Rightarrow> string
    \<Rightarrow> check_result" where
  "log_result checkName now ref st sev msg =
     \<lparr>cr_CheckName = checkName, cr_Category = CheckCategoryLogs, cr_ResourceRef = ref,
      cr_Status = st, cr_Severity = sev, cr_Message = msg, cr_LastChecked = Some now,
      cr_TraceID = [], cr_RemediationApplied = [], cr_RemediationAttempts = 0,
      cr_RunbookURL = []\<rparr>"

definition entry_result :: "string \<Rightarrow> time \<Rightarrow> pod_log_entry \<Rightarrow> check_result" where
  "entry_result checkName now e =
     log_result checkName now (entry_ref e) ''Degraded'' (classifyLogSeverity (le_Line e))
       (''Log error: '' @ le_Line e)"

definition error_result :: "string \<Rightarrow> time \<Rightarrow> err \<Rightarrow> check_result" where
  "error_result checkName now e =
     log_result checkName now ''log-collector/error'' ''Unknown'' SeverityWarning
       (''Log collection error: '' @ e)"

fun dedup_loop :: "string \<Rightarrow> time \<Rightarrow> pod_log_entry list \<Rightarrow> (string, bool) gomap
    \<Rightarrow> check_result list \<Rightarrow> check_result list" where
  "dedup_loop checkName now [] seen results = results"
| "dedup_loop checkName now (e # es) seen results =
     (if mget False seen (entry_key e) then dedup_loop checkName now es seen results
      else dedup_loop checkName now es (mset_key (entry_key e) True seen)
        (results @ [entry_result checkName now e]))"

definition ToCheckResults :: "env \<Rightarrow> log_collection \<Rightarrow> string \<Rightarrow> check_result list io" where
  "ToCheckResults env lc checkName = do {
     now \<leftarrow> now_io env;
     State_Monad.return
       (dedup_loop checkName now (lo_VMPodLogs lc @ lo_OperatorLogs lc) [] [] @
        map (error_result checkName now) (lo_Errors lc))
   }"

definition nl :: string where "nl = [CHR 0x0A]"

fun sample_loop :: "nat \<Rightarrow> nat \<Rightarrow> pod_log_entry list \<Rightarrow> string" where
  "sample_loop n i [] = []"
| "sample_loop n i (e # es) =
     (if 20 \<le> i then ''  ... ('' @ nat_str (n - 20) @ '' more)'' @ nl
      else ''  ['' @ le_PodName e @ ''/'' @ le_ContainerName e @ ''] '' @ le_Line e @ nl @
           sample_loop n (i + 1) es)"

definition FormatReport :: "log_collection \<Rightarrow> string" where
  "FormatReport lc =
     ''Log Collection '' @ [CHR 0xE2, CHR 0x80, CHR 0x94] @ '' '' @ rfc3339 (lo_CollectedAt lc) @ nl @
     ''VM Pod Log Entries: '' @ nat_str (length (lo_VMPodLogs lc)) @ nl @
     ''Operator Log Entries: '' @ nat_str (length (lo_OperatorLogs lc)) @ nl @
     (if 0 < length (lo_Errors lc)
      then ''Collection Errors: '' @ nat_str (length (lo_Errors lc)) @ nl @ ''---'' @ nl @
           concat (map (\<lambda>e. ''  ERR: '' @ e @ nl) (lo_Errors lc)) else []) @
     (if 0 < length (lo_VMPodLogs lc)
      then ''--- VM Pod Errors (sample) ---'' @ nl @
           sample_loop (length (lo_VMPodLogs lc)) 0 (lo_VMPodLogs lc) else []) @
     (if 0 < length (lo_OperatorLogs lc)
      then ''--- Operator Errors (sample) ---'' @ nl @
           sample_loop (length (lo_OperatorLogs lc)) 0 (lo_OperatorLogs lc) else [])"

section \<open>Lemmas on lines and filtering\<close>

definition terminated :: "string list \<Rightarrow> string" where
  "terminated ls = concat (map (\<lambda>l. l @ nl) ls)"

lemma split_on_line: "c \<notin> set l \<Longrightarrow> split_on c (l @ c # s) = l # split_on c s"
  by (induction l) auto

lemma split_on_no_sep: "c \<notin> set l \<Longrightarrow> split_on c l = [l]"
  by (induction l) auto

lemma raw_lines_terminated:
  "(\<And>l. l \<in> set ls \<Longrightarrow> CHR 0x0A \<notin> set l) \<Longrightarrow> raw_lines (terminated ls @ s) = ls @ raw_lines s"
proof (induction ls)
  case Nil
  then show ?case by (simp add: terminated_def)
next
  case (Cons l ls)
  have "split_on (CHR 0x0A) (terminated (l # ls) @ s) = l # split_on (CHR 0x0A) (terminated ls @ s)"
    using Cons.prems split_on_line [of "CHR 0x0A" l] by (simp add: terminated_def nl_def)
  then have "raw_lines (terminated (l # ls) @ s) = l # raw_lines (terminated ls @ s)"
    by (simp add: raw_lines_def Let_def)
  with Cons show ?case by simp
qed

lemma drop_cr_id: "l = [] \<or> last l \<noteq> CHR 0x0D \<Longrightarrow> drop_cr l = l"
  by (auto simp: drop_cr_def)

definition plain_line :: "string \<Rightarrow> bool" where
  "plain_line l = (CHR 0x0A \<notin> set l \<and> length l < 524288 \<and> (l = [] \<or> last l \<noteq> CHR 0x0D))"

lemma scan_lines_terminated:
  assumes "list_all plain_line ls"
  shows "scan_lines (terminated ls @ s) = ls @ scan_lines s"
proof -
  have "raw_lines (terminated ls @ s) = ls @ raw_lines s"
    using assms by (intro raw_lines_terminated) (auto simp: list_all_iff plain_line_def)
  moreover have "takeWhile (\<lambda>l. length l < max_token) (ls @ r) =
      ls @ takeWhile (\<lambda>l. length l < max_token) r" for r
    using assms by (auto simp: list_all_iff plain_line_def max_token_def)
  moreover have "map drop_cr ls = ls"
    using assms by (intro map_idI) (auto simp: list_all_iff plain_line_def drop_cr_id)
  ultimately show ?thesis by (simp add: scan_lines_def)
qed

lemma scan_lines_long:
  assumes "CHR 0x0A \<notin> set l" and "max_token \<le> length l"
  shows "scan_lines (l @ nl @ rest) = []"
  using assms split_on_line [of "CHR 0x0A" l rest]
  by (simp add: scan_lines_def raw_lines_def Let_def nl_def)

lemma matchesAnyPattern_iff: "matchesAnyPattern line res \<longleftrightarrow> (\<exists>re \<in> set res. re line)"
  by (induction res) auto

lemma filter_loop_take:
  "filter_loop patterns mk ls cnt entries =
     entries @ map (\<lambda>l. mk (stripKubeTimestamp l))
       (take (maxErrLinesPerContainer - cnt) (filter (\<lambda>l. matchesAnyPattern l patterns) ls))"
proof (induction ls arbitrary: cnt entries)
  case Nil
  then show ?case by simp
next
  case (Cons l ls)
  show ?case
  proof (cases "maxErrLinesPerContainer \<le> cnt")
    case True
    then show ?thesis by simp
  next
    case False
    then have "maxErrLinesPerContainer - cnt = Suc (maxErrLinesPerContainer - (cnt + 1))" by simp
    with False Cons show ?thesis by simp
  qed
qed

lemma dedup_loop_first_by:
  "dedup_loop checkName now es seen results =
     results @ map (entry_result checkName now)
       (first_by entry_key (filter (\<lambda>e. \<not> mget False seen (entry_key e)) es))"
proof (induction es arbitrary: seen results)
  case Nil
  then show ?case by simp
next
  case (Cons e es)
  let ?k = "entry_key e" and ?rest = "filter (\<lambda>x. \<not> mget False seen (entry_key x)) es"
  show ?case
  proof (cases "mget False seen ?k")
    case True
    then show ?thesis using Cons.IH by simp
  next
    case False
    have "filter (\<lambda>x. \<not> mget False (mset_key ?k True seen) (entry_key x)) es =
        filter (\<lambda>x. entry_key x \<noteq> ?k) ?rest"
      by (simp add: filter_filter) (rule filter_cong, auto)
    then have "first_by entry_key (filter (\<lambda>x. \<not> mget False (mset_key ?k True seen) (entry_key x)) es)
        = filter (\<lambda>x. entry_key x \<noteq> ?k) (first_by entry_key ?rest)"
      using first_by_filter_key [of entry_key "\<lambda>k. k \<noteq> ?k" ?rest] by simp
    then show ?thesis using False Cons.IH by simp
  qed
qed

definition sample_line :: "pod_log_entry \<Rightarrow> string" where
  "sample_line e = ''  ['' @ le_PodName e @ ''/'' @ le_ContainerName e @ ''] '' @ le_Line e @ nl"

lemma sample_loop_take:
  "i \<le> 20 \<Longrightarrow> sample_loop n i es =
     concat (map sample_line (take (20 - i) es)) @
     (if 20 - i < length es then ''  ... ('' @ nat_str (n - 20) @ '' more)'' @ nl else [])"
proof (induction es arbitrary: i)
  case Nil
  then show ?case by simp
next
  case (Cons e es)
  show ?case
  proof (cases "i = 20")
    case True
    then show ?thesis by simp
  next
    case False
    with Cons.prems have "20 - i = Suc (20 - (i + 1))" "i + 1 \<le> 20" by simp_all
    with False Cons.IH [of "i + 1"] show ?thesis by (simp add: sample_line_def)
  qed
qed

section \<open>What the collector calls\<close>

text \<open>
  The only calls of a collection: the clock; pod lists, for the namespaces and selectors that the
  specification switches on; and log requests, each for a container of a pod that such a list
  returned, with the specification's line and time bounds or the defaults.
\<close>

definition log_list_call :: "log_collection_spec \<Rightarrow> string list \<Rightarrow> string \<Rightarrow> (string, string) gomap \<Rightarrow> bool" where
  "log_list_call spec nss ns sel \<longleftrightarrow>
     lc_CollectVMPodLogs spec \<and> ns \<in> set nss \<and> sel \<in> parseSelector ` set vm_selectors \<or>
     lc_CollectOperatorLogs spec \<and> (ns, sel) \<in> map_prod id parseSelector ` set operator_selectors"

definition listed_pod :: "env \<Rightarrow> log_collection_spec \<Rightarrow> string list \<Rightarrow> kube_pod \<Rightarrow> bool" where
  "listed_pod env spec nss pod \<longleftrightarrow>
     (\<exists>ns sel h pods. log_list_call spec nss ns sel \<and> en_list_pods env h ns sel = Inr pods \<and>
        pod \<in> set pods)"

definition log_stream_call :: "env \<Rightarrow> log_collection_spec \<Rightarrow> string list \<Rightarrow> log_request \<Rightarrow> bool" where
  "log_stream_call env spec nss r \<longleftrightarrow>
     (\<exists>pod. listed_pod env spec nss pod \<and>
        lr_Namespace r = kp_Namespace pod \<and> lr_Pod r = kp_Name pod \<and>
        (lr_Container r \<in> set (kp_Containers pod) \<or>
         kp_Phase pod = ''Failed'' \<and> lr_Container r \<in> set (kp_InitContainers pod))) \<and>
     lr_TailLines r = (if 0 < sint (lc_TailLines spec) then sint (lc_TailLines spec) else 200) \<and>
     lr_SinceSeconds r = (if 0 < sint (lc_SinceSeconds spec) then sint (lc_SinceSeconds spec) else 300) \<and>
     lr_Timestamps r"

fun log_read_call :: "env \<Rightarrow> log_collection_spec \<Rightarrow> string list \<Rightarrow> api_call \<Rightarrow> bool" where
  "log_read_call env spec nss ReadClock = True"
| "log_read_call env spec nss (ListPods ns sel) = log_list_call spec nss ns sel"
| "log_read_call env spec nss (StreamLogs r) = log_stream_call env spec nss r"
| "log_read_call env spec nss _ = False"

lemma log_request_listed:
  "listed_pod env spec nss pod \<Longrightarrow> container \<in> set (pod_containers pod) \<Longrightarrow>
     log_stream_call env spec nss (log_request_for spec pod container)"
  by (auto simp: log_stream_call_def log_request_for_def maxLogLines_def pod_containers_def
      split: if_splits)

lemma emits_collect_pods:
  assumes "\<And>pod. pod \<in> set pods \<Longrightarrow> listed_pod env spec nss pod"
  shows "emits (log_read_call env spec nss) (collect_pods env spec pods acc)"
  unfolding collect_pods_def collectPodLogs_def collect_container_def filterLogLines_def
  by (intro emits_for_each_mem emits_bind emits_do_call emits_case_sum emits_now emits_return)
    (simp_all add: log_request_listed assms)

lemma emits_list_and_collect:
  assumes "log_list_call spec nss ns (parseSelector selector)"
  shows "emits (log_read_call env spec nss) (do { r \<leftarrow> list_pods env ns selector;
      (case r of Inl e \<Rightarrow> State_Monad.return (k e) | Inr pods \<Rightarrow> collect_pods env spec pods acc) })"
  unfolding list_pods_def
proof (rule emits_do_call_query)
  show "emits (log_read_call env spec nss)
      (case en_list_pods env h ns (parseSelector selector) of
         Inl e \<Rightarrow> State_Monad.return (k e) | Inr pods \<Rightarrow> collect_pods env spec pods acc)" for h
  proof (cases "en_list_pods env h ns (parseSelector selector)")
    case (Inl e)
    then show ?thesis by (simp add: emits_return)
  next
    case (Inr pods)
    then have "listed_pod env spec nss pod" if "pod \<in> set pods" for pod
      using assms that unfolding listed_pod_def by blast
    with Inr show ?thesis by (simp add: emits_collect_pods)
  qed
qed (simp add: assms)

lemma emits_collectVMPodLogs:
  "lc_CollectVMPodLogs spec \<Longrightarrow> emits (log_read_call env spec nss) (collectVMPodLogs env nss spec)"
  unfolding collectVMPodLogs_def
  by (intro emits_for_each_mem emits_list_and_collect) (auto simp: log_list_call_def)

lemma emits_collectOperatorLogs:
  "lc_CollectOperatorLogs spec \<Longrightarrow> emits (log_read_call env spec nss) (collectOperatorLogs env spec)"
  unfolding collectOperatorLogs_def
  by (intro emits_for_each_mem emits_list_and_collect) (force simp: log_list_call_def)

lemma emits_Collect: "emits (log_read_call env spec nss) (Collect env spec nss)"
proof -
  have "emits (log_read_call env spec nss) (if lc_CollectVMPodLogs spec
      then collectVMPodLogs env nss spec else State_Monad.return ([], []))"
    "emits (log_read_call env spec nss) (if lc_CollectOperatorLogs spec
      then collectOperatorLogs env spec else State_Monad.return ([], []))"
    using emits_collectVMPodLogs emits_collectOperatorLogs by (auto intro: emits_return)
  then show ?thesis unfolding Collect_def by (intro emits_bind emits_now emits_return) simp_all
qed

lemma Collect_value: "\<exists>lc h'. run_state (Collect env spec nss) h = (Inr lc, h')"
  by (simp add: Collect_def now_io_def split_beta)

text \<open>Every line of a collection was cut at newlines and kept by the filter.\<close>

lemma run_filterLogLines:
  "run_state (filterLogLines env body ns pod c spec) h =
     (map (\<lambda>l. \<lparr>le_Namespace = ns, le_PodName = pod, le_ContainerName = c,
                le_Line = stripKubeTimestamp l, le_CollectedAt = en_now env h\<rparr>)
       (take maxErrLinesPerContainer
         (filter (\<lambda>l. matchesAnyPattern l (all_patterns env spec)) (scan_lines body))),
      h @ [ReadClock])"
  by (simp add: filterLogLines_def now_io_def filter_loop_take)

section \<open>Properties\<close>

text \<open>
  C16. A container's stream is cut into lines and filtered: the entries kept are, in order, the
  first 50 lines matched by a default or custom pattern, with the Kubernetes time stamp removed
  and the metadata of the container; nothing else is kept and nothing earlier is lost.
\<close>
theorem filterLogLines_correct:
  assumes "list_all plain_line ls"
    and "run_state (filterLogLines env (terminated ls) ns pod c spec) h = (entries, h')"
  shows "map le_Line entries = map stripKubeTimestamp (take 50
      (filter (\<lambda>l. \<exists>re \<in> set (all_patterns env spec). re l) ls)) \<and>
    length entries \<le> 50 \<and> map entry_ref entries =
      replicate (length entries) (ns @ ''/'' @ pod @ ''['' @ c @ '']'')"
proof -
  have "scan_lines (terminated ls @ []) = ls @ scan_lines []"
    using assms(1) by (rule scan_lines_terminated)
  then have "scan_lines (terminated ls) = ls"
    by (simp add: scan_lines_def raw_lines_def)
  with assms(2) show ?thesis
    by (auto simp: run_filterLogLines matchesAnyPattern_iff maxErrLinesPerContainer_def comp_def
        entry_ref_def map_replicate_const)
qed

definition sample_log_spec :: log_collection_spec where
  "sample_log_spec = \<lparr>lc_Enabled = True, lc_CollectVMPodLogs = True, lc_CollectOperatorLogs = True,
     lc_TailLines = 0, lc_SinceSeconds = 0, lc_OnAlertOnly = False, lc_PersistToConfigMap = False,
     lc_ErrorPatterns = []\<rparr>"

lemma sample_lines_plain: "list_all plain_line [''all good'', ''disk Error 5'']"
  by (simp add: plain_line_def)

theorem filterLogLines_correct_witness:
  "length (fst (run_state (filterLogLines silent_env (terminated [''all good'', ''disk Error 5''])
     ''ns'' ''pod'' ''c'' sample_log_spec) [])) \<le> 50"
  by (rule filterLogLines_correct [OF sample_lines_plain prod.collapse [symmetric],
        THEN conjunct2, THEN conjunct1])

text \<open>
  C30. A line of 512 KiB or more ends the collection from its container, and nobody is told: the
  entries kept are those of the lines before it, the first 50 matching ones as always, and the
  line itself and everything after it are dropped, whatever it contains. A shorter line never
  has that effect.
\<close>
theorem overlong_line_ends_container:
  assumes "list_all plain_line ls"
    and "CHR 0x0A \<notin> set long" and "524288 \<le> length long"
    and "run_state (filterLogLines env (terminated ls @ long @ nl @ rest) ns pod c spec) h = (entries, h')"
  shows "run_state (filterLogLines env (terminated ls) ns pod c spec) h = (entries, h') \<and>
    map le_Line entries = map stripKubeTimestamp (take 50
      (filter (\<lambda>l. \<exists>re \<in> set (all_patterns env spec). re l) ls))"
proof -
  have "scan_lines (terminated ls @ []) = ls @ scan_lines []"
    using assms(1) by (rule scan_lines_terminated)
  then have "scan_lines (terminated ls) = ls"
    by (simp add: scan_lines_def raw_lines_def)
  moreover have "scan_lines (terminated ls @ long @ nl @ rest) = ls"
    using scan_lines_terminated [OF assms(1)] scan_lines_long [OF assms(2)] assms(3)
    by (simp add: max_token_def)
  ultimately show ?thesis
    using assms(4) by (auto simp: run_filterLogLines matchesAnyPattern_iff maxErrLinesPerContainer_def comp_def)
qed

theorem overlong_line_ends_container_witness:
  "map le_Line (fst (run_state (filterLogLines silent_env (terminated [''all good'', ''disk Error 5''] @
      replicate 524288 (CHR ''x'') @ nl @ ''fatal'') ''ns'' ''pod'' ''c'' sample_log_spec) [])) =
    map stripKubeTimestamp (take 50 (filter (\<lambda>l. \<exists>re \<in> set (all_patterns silent_env sample_log_spec). re l)
      [''all good'', ''disk Error 5'']))"
proof -
  have "CHR 0x0A \<notin> set (replicate 524288 (CHR ''x''))" "524288 \<le> length (replicate 524288 (CHR ''x''))"
    by (simp_all only: in_set_replicate length_replicate) simp_all
  from overlong_line_ends_container [OF sample_lines_plain this prod.collapse [symmetric]]
  show ?thesis by (rule conjunct2)
qed

text \<open>
  C26. A line in which one of the ten error words stands alone, in any letter case, is kept by
  the default patterns, whatever custom patterns the specification adds.
\<close>
theorem error_word_flagged:
  assumes "map lower_char u \<in> set error_words" and "isolated before after"
  shows "matchesAnyPattern (before @ u @ after) (all_patterns env spec)"
proof -
  have "hd errorPatterns \<in> set errorPatterns" by (simp add: errorPatterns_def)
  then have "MatchString (hd errorPatterns) \<in> set (all_patterns env spec)"
    by (simp add: all_patterns_def)
  then show ?thesis unfolding matchesAnyPattern_iff
    using error_word_matches [OF assms] by blast
qed

theorem error_word_flagged_witness:
  "matchesAnyPattern (''disk '' @ ''Error'' @ '' 5'') (all_patterns silent_env sample_log_spec)"
proof -
  have "map lower_char ''Error'' \<in> set error_words" by code_simp
  moreover have "isolated ''disk '' '' 5''" by code_simp
  ultimately show ?thesis by (rule error_word_flagged)
qed

text \<open>
  C29. The findings of a collection are one per distinct (container, first 80 bytes of the line),
  made from the first such line, in the order of collection, followed by one per error.
\<close>
theorem ToCheckResults_dedup:
  assumes "run_state (ToCheckResults env lc checkName) h = (results, h')"
  shows "results =
      map (entry_result checkName (en_now env h))
        (first_by entry_key (lo_VMPodLogs lc @ lo_OperatorLogs lc)) @
      map (error_result checkName (en_now env h)) (lo_Errors lc) \<and>
    length results = card (entry_key ` set (lo_VMPodLogs lc @ lo_OperatorLogs lc)) +
      length (lo_Errors lc)"
  using assms unfolding ToCheckResults_def
  by (auto simp: now_io_def dedup_loop_first_by length_first_by)

definition sample_collection :: log_collection where
  "sample_collection =
     \<lparr>lo_VMPodLogs = [\<lparr>le_Namespace = ''ns'', le_PodName = ''p'', le_ContainerName = ''c'',
        le_Line = ''panic'', le_CollectedAt = 0\<rparr>, \<lparr>le_Namespace = ''ns'', le_PodName = ''p'',
        le_ContainerName = ''c'', le_Line = ''panic'', le_CollectedAt = 0\<rparr>],
      lo_OperatorLogs = [], lo_CollectedAt = 0, lo_Errors = [''boom'']\<rparr>"

theorem ToCheckResults_dedup_witness:
  "length (fst (run_state (ToCheckResults silent_env sample_collection ''log-collection'') [])) = 2"
  using ToCheckResults_dedup [OF prod.collapse [symmetric],
      of silent_env sample_collection "''log-collection''" "[]"]
  by (simp add: sample_collection_def)

text \<open>
  C28. A collection only reads, and only what its specification asks for: it lists pods of the given
  namespaces (VM logs) or of the two operator namespaces (operator logs), each only when the
  specification switches them on; every log it requests is one of a container (of an init
  container only when the pod has failed) of a pod such a list returned, with the
  specification's line and time bounds when they are positive and 200 lines and 300 seconds
  when not; and it calls nothing else but the clock. It never fails.
\<close>
theorem Collect_reads_only:
  assumes "run_state (Collect env spec nss) h = (r, h')"
  shows "(\<exists>calls. h' = h @ calls \<and> list_all (log_read_call env spec nss) calls) \<and> \<not> isl r"
proof
  show "\<exists>calls. h' = h @ calls \<and> list_all (log_read_call env spec nss) calls"
    using emitsD [OF emits_Collect assms] by (metis list_all_iff)
  show "\<not> isl r" using Collect_value [of env spec nss h] assms by auto
qed

theorem Collect_reads_only_witness:
  "\<not> isl (fst (run_state (Collect silent_env sample_log_spec [''vms'']) []))"
  by (rule Collect_reads_only [OF prod.collapse [symmetric], THEN conjunct2])

text \<open>
  The time stamp Kubernetes puts before a line is removed and the message trimmed; a line of
  at most 30 bytes is left as it is.
\<close>
theorem stripKubeTimestamp_correct:
  assumes "CHR 0x20 \<notin> set stamp" and "10 < length stamp" and "stamp ! 10 = CHR ''T''"
    and "30 < length stamp + 1 + length msg"
  shows "stripKubeTimestamp (stamp @ '' '' @ msg) = trim_space msg \<and>
    (length line \<le> 30 \<longrightarrow> stripKubeTimestamp line = line)"
proof -
  have "index_of (CHR 0x20) (stamp @ '' '' @ msg) = Some (length stamp)"
    using assms(1) by (induction stamp) auto
  moreover have "stamp \<noteq> []" using assms(2) by auto
  ultimately show ?thesis
    using assms(2-) by (simp add: stripKubeTimestamp_def nth_append)
qed

theorem stripKubeTimestamp_correct_witness:
  "stripKubeTimestamp (''2024-01-15T10:30:00.123456789Z'' @ '' '' @ ''x '') = trim_space ''x ''"
  by (rule stripKubeTimestamp_correct [THEN conjunct1]) simp_all

definition report_section :: "string \<Rightarrow> pod_log_entry list \<Rightarrow> string" where
  "report_section title es =
     (if es = [] then []
      else title @ nl @ concat (map sample_line (take 20 es)) @
        (if 20 < length es then ''  ... ('' @ nat_str (length es - 20) @ '' more)'' @ nl else []))"

definition report_errors :: "err list \<Rightarrow> string" where
  "report_errors es =
     (if es = [] then []
      else ''Collection Errors: '' @ nat_str (length es) @ nl @ ''---'' @ nl @
        concat (map (\<lambda>e. ''  ERR: '' @ e @ nl) es))"

text \<open>
  The report is a header, every collection error, and for VM and operator logs a section
  with the first 20 entries and the number of those left out.
\<close>
theorem FormatReport_samples:
  "FormatReport lc =
     ''Log Collection '' @ [CHR 0xE2, CHR 0x80, CHR 0x94] @ '' '' @ rfc3339 (lo_CollectedAt lc) @ nl @
     ''VM Pod Log Entries: '' @ nat_str (length (lo_VMPodLogs lc)) @ nl @
     ''Operator Log Entries: '' @ nat_str (length (lo_OperatorLogs lc)) @ nl @
     report_errors (lo_Errors lc) @
     report_section ''--- VM Pod Errors (sample) ---'' (lo_VMPodLogs lc) @
     report_section ''--- Operator Errors (sample) ---'' (lo_OperatorLogs lc)"
  by (simp add: FormatReport_def report_errors_def report_section_def sample_loop_take)

end
