(* ===== verification/Prom_Client.thy ===== *)
theory Prom_Client
  imports Cluster_Api Go_Text Remediation
begin

text \<open>
  internal/prometheus: the authenticated HTTP client of client.go and the stubs of stubs.go.
  HTTP and the token file go through the environment; JSON decoding, the scan of a decimal
  into a float64 and the URL syntax check are the fields of a \<open>codec\<close>, whose results are
  whatever the library gives. A client is a value that \<open>http_get\<close> returns updated, since each
  call refreshes the token it holds. Float64 values are their bit patterns.
\<close>

section \<open>Data\<close>

definition DefaultPrometheusURL :: string where
  "DefaultPrometheusURL = ''https://thanos-querier.openshift-monitoring.svc.cluster.local:9091''"
definition DefaultAlertManagerURL :: string where
  "DefaultAlertManagerURL =
     ''https://alertmanager-main.openshift-monitoring.svc.cluster.local:9094''"
definition tokenPath :: string where
  "tokenPath = ''/var/run/secrets/kubernetes.io/serviceaccount/token''"

record firing_alert =
  fa_Labels :: "(string, string) gomap"
  fa_Annotations :: "(string, string) gomap"
  fa_State :: string
  fa_StartsAt :: time
  fa_EndsAt :: time
  fa_GeneratorURL :: string

record query_result =
  qr_Metric :: "(string, string) gomap"
  qr_Value :: "64 word"
  qr_Timestamp :: "time option"

text \<open>A decoded \<^verbatim>\<open>interface{}\<close>: the two dynamic types the code tests for, or another.\<close>

datatype json_value = JFloat "64 word" | JString string | JOther

record prom_sample =
  sa_Metric :: "(string, string) gomap"
  sa_Value :: "json_value \<times> json_value"

record prom_query_response =
  pq_Status :: string
  pq_ResultType :: string
  pq_Result :: "prom_sample list"
  pq_Error :: string
  pq_ErrorType :: string

record codec =
  cx_alerts :: "string \<Rightarrow> err + firing_alert list"
  cx_query :: "string \<Rightarrow> err + prom_query_response"
  cx_scan_float :: "string \<Rightarrow> 64 word"
  cx_check_url :: "string \<Rightarrow> err option"

record prom_config =
  pf_PrometheusURL :: string
  pf_AlertManagerURL :: string
  pf_InsecureSkipVerify :: bool
  pf_BearerTokenPath :: string

record prom_client =
  pc_prometheusURL :: string
  pc_alertManagerURL :: string
  pc_InsecureSkipVerify :: bool
  pc_token :: string

definition AlertName :: "firing_alert \<Rightarrow> string" where
  "AlertName a = mget [] (fa_Labels a) ''alertname''"

definition Namespace :: "firing_alert \<Rightarrow> string" where
  "Namespace a = mget [] (fa_Labels a) ''namespace''"

definition Severity :: "firing_alert \<Rightarrow> string" where
  "Severity a = mget [] (fa_Labels a) ''severity''"

section \<open>Client\<close>

definition readToken :: "env \<Rightarrow> string \<Rightarrow> (err + string) io" where
  "readToken env path = do {
     data \<leftarrow> do_call (ReadFile path) (\<lambda>h. en_read_file env h path);
     State_Monad.return (map_sum id trim_space data)
   }"

definition token_or_empty :: "err + string \<Rightarrow> string" where
  "token_or_empty r = (case r of Inl e \<Rightarrow> [] | Inr t \<Rightarrow> t)"

definition NewClient :: "env \<Rightarrow> prom_config \<Rightarrow> prom_client io" where
  "NewClient env cfg = do {
     token \<leftarrow> readToken env
       (if pf_BearerTokenPath cfg \<noteq> [] then pf_BearerTokenPath cfg else tokenPath);
     State_Monad.return
       \<lparr>pc_prometheusURL =
          (if pf_PrometheusURL cfg = [] then DefaultPrometheusURL else pf_PrometheusURL cfg),
        pc_alertManagerURL =
          (if pf_AlertManagerURL cfg = [] then DefaultAlertManagerURL else pf_AlertManagerURL cfg),
        pc_InsecureSkipVerify = pf_InsecureSkipVerify cfg,
        pc_token = token_or_empty token\<rparr>
   }"

definition auth_headers :: "string \<Rightarrow> (string, string) gomap" where
  "auth_headers token =
     mset_key ''Accept'' ''application/json''
       (if token \<noteq> [] then mset_key ''Authorization'' (''Bearer '' @ token) [] else [])"

definition refresh :: "prom_client \<Rightarrow> err + string \<Rightarrow> prom_client" where
  "refresh c token =
     (case token of
        Inl e \<Rightarrow> c
      | Inr t \<Rightarrow> if t \<noteq> [] then c\<lparr>pc_token := t\<rparr> else c)"

text \<open>What \<^verbatim>\<open>get\<close> makes of the response.\<close>

definition check_response :: "string \<Rightarrow> err + http_response \<Rightarrow> err + string" where
  "check_response endpoint resp =
     (case resp of
        Inl e \<Rightarrow> Inl (''HTTP GET '' @ endpoint @ '': '' @ e)
      | Inr rp \<Rightarrow>
          (case hp_Body rp of
             Inl e \<Rightarrow> Inl (''read response body: '' @ e)
           | Inr body \<Rightarrow>
               if hp_StatusCode rp < 200 \<or> 300 \<le> hp_StatusCode rp
               then Inl (''HTTP '' @ int_str (hp_StatusCode rp) @ '' from '' @ endpoint @ '': '' @
                      take_runes 500 body)
               else Inr body))"

definition http_get :: "env \<Rightarrow> codec \<Rightarrow> prom_client \<Rightarrow> string \<Rightarrow> ((err + string) \<times> prom_client) io" where
  "http_get env cx c endpoint =
     (case cx_check_url cx endpoint of
        Some e \<Rightarrow> State_Monad.return (Inl (''build request: '' @ e), c)
      | None \<Rightarrow> do {
          token \<leftarrow> readToken env tokenPath;
          let c' = refresh c token;
          let req = \<lparr>hr_URL = endpoint, hr_Headers = auth_headers (pc_token c')\<rparr>;
          resp \<leftarrow> do_call (HttpDo req) (\<lambda>h. en_http env h req);
          State_Monad.return (check_response endpoint resp, c')
        })"

section \<open>Alerts\<close>

text \<open>The endpoint of \<^verbatim>\<open>FiringAlerts\<close>; \<open>ks\<close> is the order its range over the filters takes.\<close>

definition alerts_endpoint :: "prom_client \<Rightarrow> (string, string) gomap \<Rightarrow> string list \<Rightarrow> string" where
  "alerts_endpoint c labelFilters ks =
     pc_alertManagerURL c @ ''/api/v2/alerts'' @
     (if 0 < length ks
      then ''?filter='' @ QueryEscape (''{'' @
             join_with '','' (map (\<lambda>k. k @ ''=\"'' @ mget [] labelFilters k @ ''\"'') ks) @ ''}'')
      else [])"

fun active_loop :: "firing_alert list \<Rightarrow> firing_alert list \<Rightarrow> firing_alert list" where
  "active_loop [] acc = acc"
| "active_loop (a # as) acc = active_loop as (if fa_State a = ''active'' then acc @ [a] else acc)"

definition decode_alerts :: "codec \<Rightarrow> err + string \<Rightarrow> err + firing_alert list" where
  "decode_alerts cx r =
     (case r of
        Inl e \<Rightarrow> Inl (''alertmanager GET: '' @ e)
      | Inr body \<Rightarrow>
          (case cx_alerts cx body of
             Inl e \<Rightarrow> Inl (''decode AlertManager response: '' @ e @ [CHR 0x0A] @ ''body: '' @
                        take_runes 500 body)
           | Inr alerts \<Rightarrow> Inr (active_loop alerts [])))"

definition FiringAlerts :: "env \<Rightarrow> codec \<Rightarrow> prom_client \<Rightarrow> (string, string) gomap \<Rightarrow> string list
    \<Rightarrow> ((err + firing_alert list) \<times> prom_client) io" where
  "FiringAlerts env cx c labelFilters ks = do {
     r \<leftarrow> http_get env cx c (alerts_endpoint c labelFilters ks);
     State_Monad.return (decode_alerts cx (fst r), snd r)
   }"

definition AlertsByName :: "env \<Rightarrow> codec \<Rightarrow> prom_client \<Rightarrow> string
    \<Rightarrow> ((err + firing_alert list) \<times> prom_client) io" where
  "AlertsByName env cx c alertName =
     FiringAlerts env cx c (mset_key ''alertname'' alertName []) [''alertname'']"

fun name_set :: "string list \<Rightarrow> (string, bool) gomap \<Rightarrow> (string, bool) gomap" where
  "name_set [] m = m"
| "name_set (n # ns) m = name_set ns (mset_key n True m)"

fun matched_loop :: "(string, bool) gomap \<Rightarrow> firing_alert list \<Rightarrow> firing_alert list
    \<Rightarrow> firing_alert list" where
  "matched_loop nameSet [] acc = acc"
| "matched_loop nameSet (a # as) acc =
     matched_loop nameSet as (if mget False nameSet (AlertName a) then acc @ [a] else acc)"

definition AlertsMatchingNames :: "env \<Rightarrow> codec \<Rightarrow> prom_client \<Rightarrow> string list
    \<Rightarrow> ((err + firing_alert list) \<times> prom_client) io" where
  "AlertsMatchingNames env cx c names = do {
     r \<leftarrow> FiringAlerts env cx c [] [];
     State_Monad.return
       (map_sum id (\<lambda>alerts. matched_loop (name_set names []) alerts []) (fst r), snd r)
   }"

section \<open>Queries\<close>

definition query_endpoint :: "prom_client \<Rightarrow> string \<Rightarrow> string" where
  "query_endpoint c query = pc_prometheusURL c @ ''/api/v1/query?query='' @ QueryEscape query"

text \<open>One sample; \<open>None\<close> is the zero \<^verbatim>\<open>time.Time\<close> left when the stamp is no number.\<close>

definition sample_result :: "codec \<Rightarrow> prom_sample \<Rightarrow> query_result" where
  "sample_result cx r =
     \<lparr>qr_Metric = sa_Metric r,
      qr_Value = (case snd (sa_Value r) of JString s \<Rightarrow> cx_scan_float cx s | _ \<Rightarrow> 0),
      qr_Timestamp = (case fst (sa_Value r) of
         JFloat f \<Rightarrow> Some (sint (float_to_int64 f) * second) | _ \<Rightarrow> None)\<rparr>"

definition decode_query :: "codec \<Rightarrow> err + string \<Rightarrow> err + query_result list" where
  "decode_query cx r =
     (case r of
        Inl e \<Rightarrow> Inl (''prometheus query GET: '' @ e)
      | Inr body \<Rightarrow>
          (case cx_query cx body of
             Inl e \<Rightarrow> Inl (''decode Prometheus response: '' @ e)
           | Inr resp \<Rightarrow>
               if pq_Status resp \<noteq> ''success''
               then Inl (''prometheus query error ['' @ pq_ErrorType resp @ '']: '' @ pq_Error resp)
               else Inr (map (sample_result cx) (pq_Result resp))))"

definition QueryInstant :: "env \<Rightarrow> codec \<Rightarrow> prom_client \<Rightarrow> string
    \<Rightarrow> ((err + query_result list) \<times> prom_client) io" where
  "QueryInstant env cx c query = do {
     r \<leftarrow> http_get env cx c (query_endpoint c query);
     State_Monad.return (decode_query cx (fst r), snd r)
   }"

definition QueryScalar :: "env \<Rightarrow> codec \<Rightarrow> prom_client \<Rightarrow> string
    \<Rightarrow> ((64 word \<times> bool \<times> err option) \<times> prom_client) io" where
  "QueryScalar env cx c query = do {
     r \<leftarrow> QueryInstant env cx c query;
     State_Monad.return
       (case fst r of
          Inl e \<Rightarrow> (0, False, Some e)
        | Inr [] \<Rightarrow> (0, False, None)
        | Inr (q # qs) \<Rightarrow> (qr_Value q, True, None), snd r)
   }"

section \<open>Stubs\<close>

definition ToCheckResult :: "alert_trigger_result \<Rightarrow> err option \<Rightarrow> check_result" where
  "ToCheckResult a e =
     \<lparr>cr_CheckName = ''alert-'' @ tr_AlertName a, cr_Category = CheckCategoryPrometheus,
      cr_ResourceRef = ''alertmanager'', cr_Status = ''Degraded'',
      cr_Severity = SeverityCritical, cr_Message = ''Alert triggered'', cr_LastChecked = None,
      cr_TraceID = [], cr_RemediationApplied = [], cr_RemediationAttempts = 0,
      cr_RunbookURL = []\<rparr>"

text \<open>The watcher and the metric checker hold nothing and find nothing in the source.\<close>

definition Evaluate :: "alert_trigger list \<Rightarrow> err + alert_trigger_result list" where
  "Evaluate triggers = Inr []"

definition EvaluateAll :: "metric_query list \<Rightarrow> err + check_result list" where
  "EvaluateAll queries = Inr []"

section \<open>Lemmas\<close>

lemma active_loop_filter: "active_loop as acc = acc @ filter (\<lambda>a. fa_State a = ''active'') as"
  by (induction as arbitrary: acc) auto

lemma name_set_iff: "mget False (name_set ns m) n \<longleftrightarrow> n \<in> set ns \<or> mget False m n"
  by (induction ns arbitrary: m) auto

lemma matched_loop_filter:
  "matched_loop m as acc = acc @ filter (\<lambda>a. mget False m (AlertName a)) as"
  by (induction as arbitrary: acc) auto

lemma mget_auth [simp]:
  "map_of (auth_headers t) ''Authorization'' = (if t \<noteq> [] then Some (''Bearer '' @ t) else None)"
  "map_of (auth_headers t) ''Accept'' = Some ''application/json''"
  by (simp_all add: auth_headers_def)

text \<open>The one request a call sends, given what the token file holds at that moment.\<close>

definition token_after :: "env \<Rightarrow> history \<Rightarrow> prom_client \<Rightarrow> string" where
  "token_after env h c = pc_token (refresh c (map_sum id trim_space (en_read_file env h tokenPath)))"

definition http_req :: "string \<Rightarrow> string \<Rightarrow> http_request" where
  "http_req url token = \<lparr>hr_URL = url, hr_Headers = auth_headers token\<rparr>"

lemma http_req_fields [simp]:
  "hr_URL (http_req url t) = url" "hr_Headers (http_req url t) = auth_headers t"
  by (simp_all add: http_req_def)

lemma run_http_get:
  "cx_check_url cx url = None \<Longrightarrow> run_state (http_get env cx c url) h =
     ((check_response url
         (en_http env (h @ [ReadFile tokenPath]) (http_req url (token_after env h c))),
       refresh c (map_sum id trim_space (en_read_file env h tokenPath))),
      h @ [ReadFile tokenPath, HttpDo (http_req url (token_after env h c))])"
  by (simp add: http_get_def readToken_def http_req_def token_after_def Let_def)

definition prom_call :: "string \<Rightarrow> api_call \<Rightarrow> bool" where
  "prom_call url c \<longleftrightarrow> c = ReadFile tokenPath \<or>
     (\<exists>req. c = HttpDo req \<and> hr_URL req = url \<and>
        map_of (hr_Headers req) ''Accept'' = Some ''application/json'')"

lemma emits_http_get: "emits (prom_call url) (http_get env cx c url)"
  unfolding http_get_def readToken_def by (intro emits_intros) (auto simp: prom_call_def)

lemma emits_NewClient:
  "P (ReadFile (if pf_BearerTokenPath cfg \<noteq> [] then pf_BearerTokenPath cfg else tokenPath)) \<Longrightarrow>
     emits P (NewClient env cfg)"
  unfolding NewClient_def readToken_def by (intro emits_intros)

section \<open>Properties\<close>

text \<open>
  C23. The token a request carries. When the default service-account token file can be read and
  is not blank, the request carries that token, whatever token path the client was configured
  with; when not, it carries the token the client holds, and no Authorization header when
  that is empty.
\<close>
theorem http_get_token:
  assumes "cx_check_url cx url = None" and "run_state (http_get env cx c url) h = ((r, c'), h')"
  shows "\<exists>req. h' = h @ [ReadFile tokenPath, HttpDo req] \<and> hr_URL req = url \<and>
    map_of (hr_Headers req) ''Authorization'' =
      (if pc_token c' = [] then None else Some (''Bearer '' @ pc_token c')) \<and>
    pc_token c' =
      (case en_read_file env h tokenPath of
         Inl e \<Rightarrow> pc_token c
       | Inr d \<Rightarrow> if trim_space d = [] then pc_token c else trim_space d)"
  using assms run_http_get [OF assms(1), of env c h]
  by (auto simp: token_after_def refresh_def split: sum.splits)

definition token_env :: env where
  "token_env = silent_env
     \<lparr>en_read_file := (\<lambda>h p. Inr (if p = tokenPath then ''sa-token'' else ''custom-token'')),
      en_http := (\<lambda>h r. Inr \<lparr>hp_StatusCode = 200, hp_Body = Inr ''[]''\<rparr>)\<rparr>"

definition sample_codec :: codec where
  "sample_codec = \<lparr>cx_alerts = (\<lambda>s. Inr []), cx_query = (\<lambda>s. Inl ''none''),
     cx_scan_float = (\<lambda>s. 0), cx_check_url = (\<lambda>s. None)\<rparr>"

definition custom_client :: prom_client where
  "custom_client = \<lparr>pc_prometheusURL = ''http://p'', pc_alertManagerURL = ''http://a'',
     pc_InsecureSkipVerify = False, pc_token = ''custom-token''\<rparr>"

lemma sample_url: "cx_check_url sample_codec u = None"
  by (simp add: sample_codec_def)

lemma trim_sa_token: "trim_space ''sa-token'' = ''sa-token''"
  by code_simp

theorem http_get_token_witness:
  "pc_token (snd (fst (run_state (http_get token_env sample_codec custom_client ''http://p/x'') [])))
     = ''sa-token''"
proof -
  obtain r c' h' where run:
    "run_state (http_get token_env sample_codec custom_client ''http://p/x'') [] = ((r, c'), h')"
    by (metis prod.collapse)
  from http_get_token [OF sample_url run] have "pc_token c' = ''sa-token''"
    by (auto simp: token_env_def trim_sa_token)
  with run show ?thesis by simp
qed

text \<open>
  C38. A call succeeds exactly when the URL is well formed, the exchange gives a response whose
  body can be read, and its status is 2xx; the result is then that body. An error message
  quotes at most 500 characters of the body.
\<close>
theorem http_get_succeeds_iff:
  "fst (fst (run_state (http_get env cx c url) h)) = Inr body \<longleftrightarrow>
     cx_check_url cx url = None \<and>
     (\<exists>resp. en_http env (h @ [ReadFile tokenPath])
          (http_req url (token_after env h c)) = Inr resp \<and>
        hp_Body resp = Inr body \<and> 200 \<le> hp_StatusCode resp \<and> hp_StatusCode resp < 300)"
proof (cases "cx_check_url cx url")
  case None
  then show ?thesis
    by (auto simp: run_http_get check_response_def split: sum.splits)
next
  case (Some e)
  then show ?thesis by (simp add: http_get_def)
qed

text \<open>
  C36. AlertsMatchingNames returns, in the order of the response, exactly the alerts that are
  active and carry one of the names; a failed or undecodable response gives an error.
\<close>
theorem AlertsMatchingNames_correct:
  assumes "run_state (http_get env cx c (pc_alertManagerURL c @ ''/api/v2/alerts'')) h = ((r, c'), h')"
    and "run_state (AlertsMatchingNames env cx c names) h = ((alerts, c''), h'')"
  shows "c'' = c' \<and> h'' = h' \<and>
    (case r of
       Inl e \<Rightarrow> alerts = Inl (''alertmanager GET: '' @ e)
     | Inr body \<Rightarrow>
         (case cx_alerts cx body of
            Inl e \<Rightarrow> isl alerts
          | Inr all \<Rightarrow> alerts = Inr (filter (\<lambda>a. fa_State a = ''active'' \<and> AlertName a \<in> set names) all)))"
proof -
  have "alerts_endpoint c [] [] = pc_alertManagerURL c @ ''/api/v2/alerts''"
    by (simp add: alerts_endpoint_def)
  with assms show ?thesis
    by (auto simp: AlertsMatchingNames_def FiringAlerts_def decode_alerts_def active_loop_filter
        matched_loop_filter name_set_iff filter_filter conj_commute split: sum.splits)
qed

theorem AlertsMatchingNames_correct_witness:
  "fst (fst (run_state (AlertsMatchingNames token_env
      (sample_codec\<lparr>cx_alerts := (\<lambda>s. Inr
         [\<lparr>fa_Labels = [(''alertname'', ''Up'')], fa_Annotations = [], fa_State = ''active'',
           fa_StartsAt = 0, fa_EndsAt = 0, fa_GeneratorURL = []\<rparr>,
          \<lparr>fa_Labels = [(''alertname'', ''Up'')], fa_Annotations = [], fa_State = ''suppressed'',
           fa_StartsAt = 0, fa_EndsAt = 0, fa_GeneratorURL = []\<rparr>])\<rparr>)
      custom_client [''Up'']) [])) =
   Inr [\<lparr>fa_Labels = [(''alertname'', ''Up'')], fa_Annotations = [], fa_State = ''active'',
         fa_StartsAt = 0, fa_EndsAt = 0, fa_GeneratorURL = []\<rparr>]"
  (is "fst (fst (run_state (AlertsMatchingNames token_env ?cx _ _) _)) = ?out")
proof -
  obtain r c' h' where get: "run_state (http_get token_env ?cx custom_client
      (pc_alertManagerURL custom_client @ ''/api/v2/alerts'')) [] = ((r, c'), h')"
    by (metis prod.collapse)
  obtain alerts c'' h'' where run:
    "run_state (AlertsMatchingNames token_env ?cx custom_client [''Up'']) [] = ((alerts, c''), h'')"
    by (metis prod.collapse)
  have "r = Inr ''[]''"
    using get by (simp add: run_http_get sample_codec_def token_env_def check_response_def)
  with AlertsMatchingNames_correct [OF get run] have "alerts = ?out"
    by (simp add: AlertName_def mget_def)
  with run show ?thesis by simp
qed

text \<open>
  C37. The query in the URL of an instant query decodes back to the PromQL text, and its
  encoding contains none of the characters that could end the parameter or the URL: a query
  cannot add or change parameters.
\<close>
theorem query_endpoint_roundtrip:
  "\<exists>q. query_endpoint c query = pc_prometheusURL c @ ''/api/v1/query?query='' @ q \<and>
     query_unescape q = query \<and> set q \<inter> set ''&#=?;/ '' = {}"
proof (intro exI conjI)
  show "query_endpoint c query = pc_prometheusURL c @ ''/api/v1/query?query='' @ QueryEscape query"
    by (rule query_endpoint_def)
  show "query_unescape (QueryEscape query) = query" by (rule unescape_escape)
  have "\<not> unreserved x \<and> x \<noteq> CHR 0x25 \<and> x \<noteq> CHR 0x2B" if "x \<in> set ''&#=?;/ ''" for x
    using that by (auto simp: unreserved_def is_upper_def is_lower_def is_digit_def)
  then show "set (QueryEscape query) \<inter> set ''&#=?;/ '' = {}"
    using QueryEscape_chars by blast
qed

text \<open>
  QueryScalar returns a value exactly when the query succeeds with at least one sample, and
  then the first one; an error of the query, a response status other than success included,
  is passed on with (0, false).
\<close>
theorem QueryScalar_correct:
  assumes "run_state (QueryInstant env cx c query) h = ((r, c'), h')"
  shows "run_state (QueryScalar env cx c query) h =
     (((case r of Inr (q # qs) \<Rightarrow> qr_Value q | _ \<Rightarrow> 0,
        \<not> isl r \<and> projr r \<noteq> [],
        if isl r then Some (projl r) else None), c'), h')"
  using assms by (auto simp: QueryScalar_def split: sum.splits list.splits)

theorem QueryScalar_correct_witness:
  "fst (snd (fst (fst (run_state (QueryScalar silent_env sample_codec custom_client ''up'') [])))) = False"
proof -
  obtain r c' h' where run:
    "run_state (QueryInstant silent_env sample_codec custom_client ''up'') [] = ((r, c'), h')"
    by (metis prod.collapse)
  then have "isl r"
    by (auto simp: QueryInstant_def run_http_get [OF sample_url] silent_env_def check_response_def
        decode_query_def)
  with QueryScalar_correct [OF run] show ?thesis by simp
qed

end
