(* ===== verification/Telemetry.thy ===== *)
theory Telemetry
  imports Cluster_Api
begin

text \<open>
  internal/telemetry/telemetry.go and internal/checks/checks.go. A provider is known by what it
  was built with: a real tracer or the dummy one, and whether it has a log exporter; the global
  tracer, meter and logger the SDK registers are reached by no other part of the program. The
  exporters and the emission of a record are calls of the environment. The dummy tracer, the
  span methods and the three metric methods do nothing in the source. The checks are stubs: a
  registry that forgets what is registered and a checker that finds nothing.
\<close>

section \<open>Provider\<close>

datatype tracer = DummyTracer | SdkTracer string

record provider =
  te_tracer :: tracer
  te_logger :: "string option"

definition new_exporter :: "env \<Rightarrow> string \<Rightarrow> string \<Rightarrow> err option io" where
  "new_exporter env kind endpoint =
     do_call (NewExporter kind endpoint) (\<lambda>h. en_new_exporter env h kind endpoint)"

text \<open>The error result of \<^verbatim>\<open>NewProvider\<close> is always nil; its caller handles one.\<close>

definition NewProvider :: "env \<Rightarrow> observability_spec option \<Rightarrow> (err + provider) io" where
  "NewProvider env spec =
     (case spec of
        None \<Rightarrow> State_Monad.return (Inr \<lparr>te_tracer = DummyTracer, te_logger = None\<rparr>)
      | Some sp \<Rightarrow> do {
          p1 \<leftarrow> (if ob_TracingEnabled sp then do {
                  e \<leftarrow> new_exporter env ''trace'' (ob_OTelEndpoint sp);
                  State_Monad.return
                    (case e of None \<Rightarrow> SdkTracer ''sre-operator'' | Some _ \<Rightarrow> DummyTracer) }
                else State_Monad.return DummyTracer);
          _ \<leftarrow> (if ob_MetricsEnabled sp then new_exporter env ''metric'' (ob_OTelEndpoint sp)
               else State_Monad.return None);
          p3 \<leftarrow> (if ob_LogsEnabled sp then do {
                  e \<leftarrow> new_exporter env ''log'' (ob_OTelEndpoint sp);
                  State_Monad.return (case e of None \<Rightarrow> Some ''sre-operator'' | Some _ \<Rightarrow> None) }
                else State_Monad.return None);
          State_Monad.return (Inr \<lparr>te_tracer = p1, te_logger = p3\<rparr>)
        })"

text \<open>A method that reads a field of a nil provider panics: the result is \<open>None\<close>.\<close>

definition Tracer :: "provider option \<Rightarrow> tracer option" where
  "Tracer p = map_option te_tracer p"

definition record_severity :: "check_result \<Rightarrow> otel_severity" where
  "record_severity finding =
     (if cr_Status finding = ''Failed'' then OTelError
      else if cr_Status finding = ''Degraded'' then OTelWarn else OTelInfo)"

text \<open>A record is at least a warning exactly when its finding is failed or degraded.\<close>

lemma record_severity_warns:
  "OTelWarn \<le> record_severity f \<longleftrightarrow> cr_Status f = ''Failed'' \<or> cr_Status f = ''Degraded''"
  by (simp add: record_severity_def less_eq_otel_severity_def)

definition LogRecord :: "env \<Rightarrow> provider \<Rightarrow> check_result \<Rightarrow> unit io" where
  "LogRecord env p finding =
     (case te_logger p of
        None \<Rightarrow> State_Monad.return ()
      | Some _ \<Rightarrow> do {
          now \<leftarrow> now_io env;
          do_call (EmitLog
            \<lparr>ol_Severity = record_severity finding, ol_Timestamp = now,
             ol_Body = cr_Message finding,
             ol_Attributes = [(''checkName'', cr_CheckName finding),
               (''category'', cr_Category finding), (''resource'', cr_ResourceRef finding),
               (''status'', cr_Status finding)]\<rparr>) (\<lambda>h. ())
        })"

definition LogSummary :: "env \<Rightarrow> provider \<Rightarrow> string \<Rightarrow> unit io" where
  "LogSummary env p summary =
     (case te_logger p of
        None \<Rightarrow> State_Monad.return ()
      | Some _ \<Rightarrow> do {
          now \<leftarrow> now_io env;
          do_call (EmitLog
            \<lparr>ol_Severity = OTelInfo, ol_Timestamp = now, ol_Body = summary,
             ol_Attributes = [(''type'', ''log-collection-summary'')]\<rparr>) (\<lambda>h. ())
        })"

definition UpdateStatus_metric :: "provider \<Rightarrow> string \<Rightarrow> sre_policy_status \<Rightarrow> unit io" where
  "UpdateStatus_metric p name status = State_Monad.return ()"

definition RecordCheckRun :: "provider option \<Rightarrow> string \<Rightarrow> string \<Rightarrow> duration \<Rightarrow> nat \<Rightarrow> unit io" where
  "RecordCheckRun p name category duration findings = State_Monad.return ()"

definition RecordRemediation :: "provider option \<Rightarrow> string \<Rightarrow> string \<Rightarrow> string \<Rightarrow> unit io" where
  "RecordRemediation p action checkName resourceRef = State_Monad.return ()"

section \<open>Checks\<close>

record checker =
  ch_Name :: string
  ch_Run :: "check_spec \<Rightarrow> err + check_result list"

type_synonym registry = unit

definition NewRegistry :: registry where "NewRegistry = ()"

definition Register :: "checker \<Rightarrow> registry \<Rightarrow> registry" where
  "Register c r = r"

definition checkers_for :: "registry \<Rightarrow> check_category \<Rightarrow> checker list" where
  "checkers_for r category = []"

definition dummyChecker :: "string \<Rightarrow> checker" where
  "dummyChecker name = \<lparr>ch_Name = name, ch_Run = (\<lambda>spec. Inr [])\<rparr>"

definition NewVMHealthChecker :: "string \<Rightarrow> checker" where
  "NewVMHealthChecker ns = dummyChecker ''vm''"
definition NewNodeHealthChecker :: checker where
  "NewNodeHealthChecker = dummyChecker ''node''"
definition NewStorageChecker :: "string \<Rightarrow> checker" where
  "NewStorageChecker ns = dummyChecker ''storage''"
definition NewNetworkChecker :: "string \<Rightarrow> checker" where
  "NewNetworkChecker ns = dummyChecker ''network''"
definition NewOCPClusterChecker :: checker where
  "NewOCPClusterChecker = dummyChecker ''ocp''"

section \<open>Properties\<close>

text \<open>The calls of telemetry: exporters for what is enabled, at the endpoint, and records.\<close>

definition exporter_call :: "observability_spec \<Rightarrow> api_call \<Rightarrow> bool" where
  "exporter_call ob c \<longleftrightarrow>
     ob_TracingEnabled ob \<and> c = NewExporter ''trace'' (ob_OTelEndpoint ob) \<or>
     ob_MetricsEnabled ob \<and> c = NewExporter ''metric'' (ob_OTelEndpoint ob) \<or>
     ob_LogsEnabled ob \<and> c = NewExporter ''log'' (ob_OTelEndpoint ob)"

definition emit_call :: "string \<Rightarrow> api_call \<Rightarrow> bool" where
  "emit_call body c \<longleftrightarrow> c = ReadClock \<or> (\<exists>r. c = EmitLog r \<and> ol_Body r = body)"

lemma emits_NewProvider: "emits (exporter_call sp) (NewProvider env (Some sp))"
  unfolding NewProvider_def new_exporter_def option.case
  by (intro emits_intros) (auto simp: exporter_call_def)

lemma emits_LogRecord: "emits (emit_call (cr_Message f)) (LogRecord env p f)"
  unfolding LogRecord_def by (intro emits_intros) (auto simp: emit_call_def)

lemma emits_LogSummary: "emits (emit_call s) (LogSummary env p s)"
  unfolding LogSummary_def by (intro emits_intros) (auto simp: emit_call_def)

lemma NewProvider_ok: "\<not> isl (fst (run_state (NewProvider env spec) h))"
  by (auto simp: NewProvider_def split: option.splits prod.splits)

text \<open>
  The exporters of a specification in the order they are created, and the provider built from
  what their creation answers.
\<close>

definition exporter_calls :: "observability_spec \<Rightarrow> api_call list" where
  "exporter_calls ob =
     [NewExporter kind (ob_OTelEndpoint ob). (kind, on) \<leftarrow> [(''trace'', ob_TracingEnabled ob),
        (''metric'', ob_MetricsEnabled ob), (''log'', ob_LogsEnabled ob)], on]"

definition provider_for :: "env \<Rightarrow> observability_spec \<Rightarrow> history \<Rightarrow> provider" where
  "provider_for env ob h =
     (let created = (\<lambda>kind. en_new_exporter env
            (h @ takeWhile (\<lambda>c. c \<noteq> NewExporter kind (ob_OTelEndpoint ob)) (exporter_calls ob))
            kind (ob_OTelEndpoint ob) = None)
      in \<lparr>te_tracer = (if ob_TracingEnabled ob \<and> created ''trace'' then SdkTracer ''sre-operator'' else DummyTracer),
          te_logger = (if ob_LogsEnabled ob \<and> created ''log'' then Some ''sre-operator'' else None)\<rparr>)"

lemma run_NewProvider:
  "run_state (NewProvider env (Some ob)) h = (Inr (provider_for env ob h), h @ exporter_calls ob)"
  by (cases "ob_TracingEnabled ob"; cases "ob_MetricsEnabled ob"; cases "ob_LogsEnabled ob")
    (simp_all add: NewProvider_def new_exporter_def provider_for_def exporter_calls_def Let_def
      split: option.split)

text \<open>
  NewProvider never fails: an exporter that cannot be created is dropped without an error,
  so the provider has a real tracer exactly when tracing is enabled and its exporter could be
  created, and no logger at all unless logs are enabled.
\<close>
theorem NewProvider_never_fails:
  "\<exists>p. fst (run_state (NewProvider env (Some sp)) h) = Inr p \<and>
     (te_tracer p = SdkTracer ''sre-operator'' \<longleftrightarrow>
        ob_TracingEnabled sp \<and> en_new_exporter env h ''trace'' (ob_OTelEndpoint sp) = None) \<and>
     (te_logger p = None \<or> ob_LogsEnabled sp)"
  by (auto simp: NewProvider_def new_exporter_def split: option.splits)

text \<open>
  A finding sent to the log exporter keeps its message and its check, category, resource and
  status, with the severity of its status; a provider without a logger sends nothing.
\<close>
theorem LogRecord_correct:
  "snd (run_state (LogRecord env p f) h) =
     (if te_logger p = None then h
      else h @ [ReadClock, EmitLog
        \<lparr>ol_Severity = (if cr_Status f = ''Failed'' then OTelError
            else if cr_Status f = ''Degraded'' then OTelWarn else OTelInfo),
         ol_Timestamp = en_now env h, ol_Body = cr_Message f,
         ol_Attributes = [(''checkName'', cr_CheckName f), (''category'', cr_Category f),
           (''resource'', cr_ResourceRef f), (''status'', cr_Status f)]\<rparr>])"
  by (auto simp: LogRecord_def record_severity_def now_io_def split: option.splits)

end
