(* ===== verification/Reconciler.thy ===== *)
theory Reconciler
  imports Status_Helpers Log_Collector Prom_Client Telemetry
begin

text \<open>
  The reconcile loop of internal/controller/srepolicy_controller.go, with the aggregator stubs
  of internal/diagnostics/stubs.go. The reconciler's fields are a record that \<open>Reconcile\<close>
  returns updated; the fetched policy is a value whose status the cycle builds up and writes at
  the end. A nil-pointer panic is an outcome of its own. Spans, log lines and metrics have no
  effect on any value and are left out; every read of the clock, every API call and every
  emitted record is a call of the environment, in the order of the source.
\<close>

section \<open>State and results\<close>

record reconciler =
  rc_Telemetry :: "provider option"
  rc_KubeClient :: bool
  rc_promClient :: "prom_client option"
  rc_lastPromConfig :: string
  rc_lastOTelEndpoint :: string

record ctrl_result =
  cl_Requeue :: bool
  cl_RequeueAfter :: duration

datatype outcome = Panicked | Returned ctrl_result "err option"

definition no_result :: ctrl_result where
  "no_result = \<lparr>cl_Requeue = False, cl_RequeueAfter = 0\<rparr>"

definition defaultRequeueAfter :: duration where
  "defaultRequeueAfter = 60 * second"

definition logDiagnosticsConfigMap :: string where
  "logDiagnosticsConfigMap = ''sre-log-diagnostics''"

definition globalConfigName :: string where
  "globalConfigName = ''sre-global-config''"

definition setCondition_io :: "env \<Rightarrow> string \<Rightarrow> string \<Rightarrow> string \<Rightarrow> string
    \<Rightarrow> sre_policy_status \<Rightarrow> sre_policy_status io" where
  "setCondition_io env condType condStatus reason message status = do {
     now \<leftarrow> now_io env;
     State_Monad.return (setCondition now condType condStatus reason message status)
   }"

section \<open>Deletion, finalizer and phase updates\<close>

definition update_policy :: "env \<Rightarrow> sre_policy \<Rightarrow> api_error option io" where
  "update_policy env p = do_call (UpdatePolicy p) (\<lambda>h. en_update_policy env h p)"

definition handleDeletion :: "env \<Rightarrow> sre_policy \<Rightarrow> (ctrl_result \<times> err option) io" where
  "handleDeletion env policy =
     (if containsString (po_Finalizers policy) finalizerName
      then do {
        e \<leftarrow> update_policy env
          (policy\<lparr>po_Finalizers := removeString (po_Finalizers policy) finalizerName\<rparr>);
        State_Monad.return (no_result, map_option api_error_msg e) }
      else State_Monad.return (no_result, None))"

definition updatePhase :: "env \<Rightarrow> sre_policy \<Rightarrow> string \<Rightarrow> err option
    \<Rightarrow> (ctrl_result \<times> err option) io" where
  "updatePhase env policy phase reconcileErr = do {
     let policy' = policy\<lparr>po_Status := (po_Status policy)\<lparr>st_Phase := phase\<rparr>\<rparr>;
     e \<leftarrow> do_call (UpdateStatus policy') (\<lambda>h. en_update_status env h policy');
     State_Monad.return
       (case e of
          Some er \<Rightarrow> (no_result, Some (''update status: '' @ api_error_msg er))
        | None \<Rightarrow>
            (case reconcileErr of
               Some er \<Rightarrow> (no_result\<lparr>cl_RequeueAfter := defaultRequeueAfter\<rparr>, Some er)
             | None \<Rightarrow> (no_result\<lparr>cl_RequeueAfter := defaultRequeueAfter\<rparr>, None)))
   }"

section \<open>ConfigMap rotation\<close>

definition rotation_labels :: "string \<Rightarrow> (string, string) gomap" where
  "rotation_labels labelSelector =
     (case split_on (CHR ''='') labelSelector of
        [k, v] \<Rightarrow> mset_key k v []
      | _ \<Rightarrow> [])"

text \<open>A failed deletion is logged and the loop goes on.\<close>

definition delete_config_maps :: "env \<Rightarrow> config_map list \<Rightarrow> unit io" where
  "delete_config_maps env cms =
     for_each cms (\<lambda>cm u. do {
       e \<leftarrow> do_call (DeleteConfigMap cm) (\<lambda>h. en_delete_config_map env h cm);
       State_Monad.return () }) ()"

definition rotateConfigMaps :: "env \<Rightarrow> sre_policy \<Rightarrow> string \<Rightarrow> int \<Rightarrow> unit io" where
  "rotateConfigMaps env policy labelSelector maxCopies = do {
     r \<leftarrow> do_call (ListConfigMaps (po_Namespace policy) (rotation_labels labelSelector))
       (\<lambda>h. en_list_config_maps env h (po_Namespace policy) (rotation_labels labelSelector));
     (case r of
        Inl e \<Rightarrow> State_Monad.return ()
      | Inr items \<Rightarrow>
          if int (length items) \<le> maxCopies then State_Monad.return ()
          else delete_config_maps env
            (take (nat (int (length items) - maxCopies)) (en_sort_config_maps env items)))
   }"

text \<open>The guard around both uses of the rotation.\<close>

definition max_copies :: "sre_global_config option \<Rightarrow> int option" where
  "max_copies globalConfig =
     (case globalConfig of
        None \<Rightarrow> None
      | Some g \<Rightarrow>
          (case gs_Retention (gc_Spec g) of
             None \<Rightarrow> None
           | Some re \<Rightarrow> if 0 < sint (re_MaxConfigMapCopies re)
                        then Some (sint (re_MaxConfigMapCopies re)) else None))"

definition rotate_if_configured :: "env \<Rightarrow> sre_policy \<Rightarrow> sre_global_config option \<Rightarrow> string
    \<Rightarrow> unit io" where
  "rotate_if_configured env policy globalConfig selector =
     (case max_copies globalConfig of
        None \<Rightarrow> State_Monad.return ()
      | Some n \<Rightarrow> rotateConfigMaps env policy selector n)"

section \<open>Built-in and OCP checks\<close>

definition buildRegistry :: "string \<Rightarrow> registry" where
  "buildRegistry namespace =
     Register (NewNetworkChecker namespace)
       (Register (NewStorageChecker namespace)
         (Register NewNodeHealthChecker
           (Register (NewVMHealthChecker namespace) NewRegistry)))"

definition remediate_finding :: "check_spec \<Rightarrow> check_result \<Rightarrow> nat \<Rightarrow> check_result \<times> nat" where
  "remediate_finding checkSpec f totalRemediations =
     (if cr_Status f = ''Healthy'' \<or> cs_Remediation checkSpec = RemediationNone
      then (f, totalRemediations)
      else (case Apply f checkSpec of
              (action, Some remErr) \<Rightarrow> (f, totalRemediations)
            | (action, None) \<Rightarrow>
                if action \<noteq> RemediationNone \<and> action \<noteq> RemediationAlert
                then (f\<lparr>cr_RemediationApplied := action,
                        cr_RemediationAttempts := cr_RemediationAttempts f + 1\<rparr>,
                      totalRemediations + 1)
                else (f, totalRemediations)))"

fun remediate_findings :: "check_spec \<Rightarrow> check_result list \<Rightarrow> nat \<Rightarrow> check_result list \<times> nat" where
  "remediate_findings checkSpec [] n = ([], n)"
| "remediate_findings checkSpec (f # fs) n =
     (let (f', n') = remediate_finding checkSpec f n;
          (fs', n'') = remediate_findings checkSpec fs n'
      in (f' # fs', n''))"

definition run_checker :: "env \<Rightarrow> check_spec \<Rightarrow> checker \<Rightarrow> check_result list \<times> nat
    \<Rightarrow> (check_result list \<times> nat) io" where
  "run_checker env checkSpec ch acc = do {
     start \<leftarrow> now_io env;
     let r = ch_Run ch checkSpec;
     fin \<leftarrow> now_io env;
     State_Monad.return
       (case r of
          Inl e \<Rightarrow> acc
        | Inr findings \<Rightarrow>
            (let (findings', n) = remediate_findings checkSpec findings (snd acc)
             in (fst acc @ findings', n)))
   }"

text \<open>The error result of \<^verbatim>\<open>runBuiltInChecks\<close> is always nil.\<close>

definition runBuiltInChecks :: "env \<Rightarrow> sre_policy \<Rightarrow> string list
    \<Rightarrow> (check_result list \<times> nat \<times> err option) io" where
  "runBuiltInChecks env policy namespaces = do {
     acc \<leftarrow> for_each (sp_Checks (po_Spec policy)) (\<lambda>checkSpec acc.
       if \<not> cs_Enabled checkSpec then State_Monad.return acc
       else for_each namespaces (\<lambda>ns acc.
         for_each (checkers_for (buildRegistry ns) (cs_Category checkSpec))
           (run_checker env checkSpec) acc) acc) ([], 0);
     State_Monad.return (fst acc, snd acc, None)
   }"

fun all_healthy :: "check_result list \<Rightarrow> bool" where
  "all_healthy [] = True"
| "all_healthy (f # fs) = (if cr_Status f \<noteq> ''Healthy'' then False else all_healthy fs)"

definition ocp_check_spec :: "ocp_cluster_spec \<Rightarrow> check_spec" where
  "ocp_check_spec spec =
     \<lparr>cs_Name = ''ocp-cluster'', cs_Category = CheckCategoryOCPCluster, cs_Enabled = True,
      cs_Severity = SeverityCritical, cs_Remediation = oc_Remediation spec,
      cs_RemediationWorkflow = None, cs_RunbookURL = oc_RunbookURL spec, cs_IntervalSeconds = 0\<rparr>"

definition runOCPClusterChecks :: "sre_policy \<Rightarrow> check_result list \<times> bool" where
  "runOCPClusterChecks policy =
     (case sp_OCPCluster (po_Spec policy) of
        None \<Rightarrow> ([], True)
      | Some spec \<Rightarrow>
          if \<not> oc_Enabled spec then ([], True)
          else (case ch_Run NewOCPClusterChecker (ocp_check_spec spec) of
                  Inl e \<Rightarrow> ([], True)
                | Inr findings \<Rightarrow> (findings, all_healthy findings)))"

section \<open>Prometheus\<close>

definition promSpecKey :: "global_prometheus_spec \<Rightarrow> string" where
  "promSpecKey g =
     gp_PrometheusURL g @ ''|'' @ gp_AlertManagerURL g @ ''|'' @ bool_str (gp_InsecureSkipVerify g)"

definition promConfig :: "global_prometheus_spec \<Rightarrow> prom_config" where
  "promConfig g =
     \<lparr>pf_PrometheusURL = gp_PrometheusURL g, pf_AlertManagerURL = gp_AlertManagerURL g,
      pf_InsecureSkipVerify = gp_InsecureSkipVerify g,
      pf_BearerTokenPath =
        (case gp_BearerTokenSecretRef g of
           None \<Rightarrow> []
         | Some r \<Rightarrow> ''/var/run/secrets/prometheus/'' @ sk_Name r @ ''/'' @ sk_Key r)\<rparr>"

definition reuse_client :: "env \<Rightarrow> reconciler \<Rightarrow> global_prometheus_spec \<Rightarrow> reconciler io" where
  "reuse_client env rc g =
     (if rc_promClient rc = None \<or> rc_lastPromConfig rc \<noteq> promSpecKey g
      then do {
        c \<leftarrow> NewClient env (promConfig g);
        State_Monad.return (rc\<lparr>rc_promClient := Some c, rc_lastPromConfig := promSpecKey g\<rparr>) }
      else State_Monad.return rc)"

record prom_outcome =
  px_findings :: "check_result list"
  px_triggers :: "alert_trigger_result list"
  px_dispatches :: "alert_dispatch_result list"
  px_status :: sre_policy_status
  px_reconciler :: reconciler

definition run_alert_triggers :: "env \<Rightarrow> alert_trigger list \<Rightarrow> prom_outcome \<Rightarrow> prom_outcome io" where
  "run_alert_triggers env alertTriggers o0 =
     (if 0 < length alertTriggers
      then (case Evaluate alertTriggers of
          Inl e \<Rightarrow> do {
            st \<leftarrow> setCondition_io env conditionTypePromHealthy ConditionFalse
              ''AlertManagerUnreachable'' e (px_status o0);
            State_Monad.return (o0\<lparr>px_status := st\<rparr>) }
        | Inr triggerResults \<Rightarrow> do {
            st \<leftarrow> setCondition_io env conditionTypePromHealthy ConditionTrue
              ''AlertManagerReachable''
              (nat_str (length alertTriggers) @ '' triggers evaluated, '' @
               nat_str (length triggerResults) @ '' fired'') (px_status o0);
            now \<leftarrow> now_io env;
            State_Monad.return (o0\<lparr>px_status := st, px_triggers := triggerResults,
              px_findings := px_findings o0 @ map (\<lambda>t. ToCheckResult t None) triggerResults,
              px_dispatches := Dispatch triggerResults alertTriggers (st_Findings st)\<rparr>) })
      else State_Monad.return o0)"

definition run_metric_queries :: "metric_query list \<Rightarrow> prom_outcome \<Rightarrow> prom_outcome" where
  "run_metric_queries queries o0 =
     (if 0 < length queries
      then (case EvaluateAll queries of
              Inl e \<Rightarrow> o0
            | Inr fs \<Rightarrow> o0\<lparr>px_findings := px_findings o0 @ fs\<rparr>)
      else o0)"

definition global_prometheus :: "sre_global_config option \<Rightarrow> global_prometheus_spec option" where
  "global_prometheus globalConfig =
     (case globalConfig of None \<Rightarrow> None | Some g \<Rightarrow> gs_Prometheus (gc_Spec g))"

definition runPrometheusChecks :: "env \<Rightarrow> reconciler \<Rightarrow> sre_policy \<Rightarrow> sre_global_config option
    \<Rightarrow> prom_outcome io" where
  "runPrometheusChecks env rc policy globalConfig =
     (let none = \<lparr>px_findings = [], px_triggers = [], px_dispatches = [],
                  px_status = po_Status policy, px_reconciler = rc\<rparr>
      in case sp_Prometheus (po_Spec policy) of
           None \<Rightarrow> State_Monad.return none
         | Some promSpec \<Rightarrow>
             (case global_prometheus globalConfig of
                None \<Rightarrow> State_Monad.return none
              | Some g \<Rightarrow>
                  if \<not> pr_Enabled promSpec then State_Monad.return none
                  else do {
                    rc' \<leftarrow> reuse_client env rc g;
                    o1 \<leftarrow> run_alert_triggers env (pr_AlertTriggers promSpec)
                      (none\<lparr>px_reconciler := rc'\<rparr>);
                    State_Monad.return (run_metric_queries (pr_MetricQueries promSpec) o1) }))"

section \<open>Log collection\<close>

definition logs_enabled :: "sre_global_config option \<Rightarrow> bool" where
  "logs_enabled globalConfig =
     (case globalConfig of
        None \<Rightarrow> False
      | Some g \<Rightarrow> (case gs_Observability (gc_Spec g) of None \<Rightarrow> False | Some ob \<Rightarrow> ob_LogsEnabled ob))"

definition log_config_map :: "sre_policy \<Rightarrow> log_collection \<Rightarrow> string \<Rightarrow> config_map" where
  "log_config_map policy collection summary =
     \<lparr>cm_Name = [], cm_GenerateName = logDiagnosticsConfigMap @ ''-'',
      cm_Namespace = po_Namespace policy,
      cm_Labels = [(''sre.kubevirt.io/component'', ''log-diagnostics'')],
      cm_Data = [(''log-summary.txt'', summary),
        (''last-updated'', rfc3339 (lo_CollectedAt collection))],
      cm_CreationTimestamp = 0\<rparr>"

definition collect_and_store :: "env \<Rightarrow> provider \<Rightarrow> sre_policy \<Rightarrow> sre_global_config option
    \<Rightarrow> log_collection_spec \<Rightarrow> check_result list io" where
  "collect_and_store env tel policy globalConfig spec = do {
     r \<leftarrow> Collect env spec (sp_TargetNamespaces (po_Spec policy));
     (case r of
        Inl e \<Rightarrow> State_Monad.return []
      | Inr collection \<Rightarrow> do {
          let summary = FormatReport collection;
          let cm = log_config_map policy collection summary;
          createErr \<leftarrow> do_call (CreateConfigMap cm) (\<lambda>h. en_create_config_map env h cm);
          _ \<leftarrow> (case createErr of
                 Some e \<Rightarrow> State_Monad.return ()
               | None \<Rightarrow> rotate_if_configured env policy globalConfig
                   ''sre.kubevirt.io/component=log-diagnostics'');
          _ \<leftarrow> (if logs_enabled globalConfig then LogSummary env tel summary
               else State_Monad.return ());
          ToCheckResults env collection ''log-collection'' })
   }"

definition runLogCollection :: "env \<Rightarrow> reconciler \<Rightarrow> provider \<Rightarrow> sre_policy
    \<Rightarrow> sre_global_config option \<Rightarrow> alert_trigger_result list \<Rightarrow> check_result list io" where
  "runLogCollection env rc tel policy globalConfig firedTriggers =
     (case sp_LogCollection (po_Spec policy) of
        None \<Rightarrow> State_Monad.return []
      | Some spec \<Rightarrow>
          if \<not> lc_Enabled spec then State_Monad.return []
          else if \<not> rc_KubeClient rc then State_Monad.return []
          else if lc_OnAlertOnly spec \<and> length firedTriggers = 0 then State_Monad.return []
          else collect_and_store env tel policy globalConfig spec)"

section \<open>Observability\<close>

text \<open>\<^verbatim>\<open>r.reconcileOTel\<close>: on success the reconciler holds the new provider.\<close>

definition reconcileOTel :: "env \<Rightarrow> reconciler \<Rightarrow> sre_global_config \<Rightarrow> (err option \<times> reconciler) io" where
  "reconcileOTel env rc globalConfig =
     (case gs_Observability (gc_Spec globalConfig) of
        None \<Rightarrow> State_Monad.return (None, rc)
      | Some ob \<Rightarrow> do {
          r \<leftarrow> NewProvider env (Some ob);
          State_Monad.return
            (case r of
               Inl e \<Rightarrow> (Some e, rc)
             | Inr p \<Rightarrow> (None, rc\<lparr>rc_Telemetry := Some p\<rparr>)) })"

definition observability_wanted :: "sre_global_config option \<Rightarrow> (sre_global_config \<times> observability_spec) option" where
  "observability_wanted globalConfig =
     (case globalConfig of
        None \<Rightarrow> None
      | Some g \<Rightarrow>
          (case gs_Observability (gc_Spec g) of
             None \<Rightarrow> None
           | Some ob \<Rightarrow> if ob_TracingEnabled ob \<or> ob_MetricsEnabled ob \<or> ob_LogsEnabled ob
                        then Some (g, ob) else None))"

definition refresh_otel :: "env \<Rightarrow> reconciler \<Rightarrow> sre_global_config option \<Rightarrow> sre_policy_status
    \<Rightarrow> (reconciler \<times> sre_policy_status) io" where
  "refresh_otel env rc globalConfig status =
     (case observability_wanted globalConfig of
        None \<Rightarrow> State_Monad.return (rc, status)
      | Some (g, ob) \<Rightarrow>
          if ob_OTelEndpoint ob = rc_lastOTelEndpoint rc then State_Monad.return (rc, status)
          else do {
            r \<leftarrow> reconcileOTel env rc g;
            (case fst r of
               Some e \<Rightarrow> do {
                 st \<leftarrow> setCondition_io env conditionTypeOTelHealthy ConditionFalse
                   ''ObservabilityInitFailed'' e status;
                 State_Monad.return (snd r, st) }
             | None \<Rightarrow> do {
                 st \<leftarrow> setCondition_io env conditionTypeOTelHealthy ConditionTrue
                   ''ObservabilityConnected'' ''OTel endpoint reachable'' status;
                 State_Monad.return ((snd r)\<lparr>rc_lastOTelEndpoint := ob_OTelEndpoint ob\<rparr>,
                   st\<lparr>st_ObservabilityEndpointReachable := Some True\<rparr>) }) })"

section \<open>Diagnostics\<close>

record diag_report =
  dr_OTelTraceID :: string

definition Build_report :: "check_result list \<Rightarrow> nat \<Rightarrow> duration \<Rightarrow> err + diag_report" where
  "Build_report findings n d = Inr \<lparr>dr_OTelTraceID = []\<rparr>"

definition PersistToConfigMap :: "diag_report \<Rightarrow> string \<Rightarrow> err option" where
  "PersistToConfigMap rep namespace = None"

definition run_diagnostics :: "env \<Rightarrow> sre_policy \<Rightarrow> sre_global_config option \<Rightarrow> check_result list
    \<Rightarrow> nat \<Rightarrow> duration \<Rightarrow> check_result list io" where
  "run_diagnostics env policy globalConfig allFindings remediationCount scanDuration =
     (case Build_report allFindings remediationCount scanDuration of
        Inl e \<Rightarrow> State_Monad.return allFindings
      | Inr rep \<Rightarrow> do {
          _ \<leftarrow> (case PersistToConfigMap rep (po_Namespace policy) of
                 Some e \<Rightarrow> State_Monad.return ()
               | None \<Rightarrow> rotate_if_configured env policy globalConfig
                   ''sre.kubevirt.io/component=diagnostics'');
          State_Monad.return
            (if dr_OTelTraceID rep \<noteq> []
             then map (\<lambda>f. f\<lparr>cr_TraceID := dr_OTelTraceID rep\<rparr>) allFindings else allFindings) })"

section \<open>Events\<close>

text \<open>
  The call to the event recorder: type, reason and the message format, which is all the source
  passes. The recorder, a library, expands the format; with no further argument that leaves
  a text without percent signs as it is.
\<close>

definition event_for :: "check_result \<Rightarrow> api_call" where
  "event_for f =
     RecordEvent (if cr_Severity f = SeverityCritical then ''Warning'' else ''Normal'')
       (''SRE'' @ cr_Category f @ cr_Status f)
       (''['' @ cr_Severity f @ ''] '' @ cr_ResourceRef f @ '': '' @ cr_Message f @
        (if cr_RunbookURL f \<noteq> [] then '' | Runbook: '' @ cr_RunbookURL f else []) @
        (if cr_TraceID f \<noteq> [] then '' | TraceID: '' @ cr_TraceID f else []))"

definition emitEvents :: "check_result list \<Rightarrow> unit io" where
  "emitEvents findings =
     for_each findings (\<lambda>f u.
       if cr_Status f = ''Healthy'' then State_Monad.return ()
       else do_call (event_for f) (\<lambda>h. ())) ()"

section \<open>The reconcile cycle\<close>

definition resolve_namespaces :: "sre_policy \<Rightarrow> sre_global_config option \<Rightarrow> string list" where
  "resolve_namespaces policy globalConfig =
     (let namespaces = sp_TargetNamespaces (po_Spec policy)
      in if length namespaces = 0
         then (case globalConfig of
                 Some g \<Rightarrow>
                   (case gs_Defaults (gc_Spec g) of
                      Some df \<Rightarrow> if df_VMNamespace df \<noteq> [] then [df_VMNamespace df] else [[]]
                    | None \<Rightarrow> [[]])
               | None \<Rightarrow> [[]])
         else namespaces)"

definition counted_dispatch :: "alert_dispatch_result \<Rightarrow> bool" where
  "counted_dispatch dr =
     (\<not> ad_Skipped dr \<and> ad_Error dr = None \<and> ad_Action dr \<noteq> RemediationAlert \<and>
      ad_Action dr \<noteq> RemediationNone \<and> ad_Action dr \<noteq> RemediationDiagnose)"

text \<open>Lines 243 to 266: the status written at the end of a cycle.\<close>

definition final_status :: "sre_policy \<Rightarrow> sre_policy_status \<Rightarrow> check_result list \<Rightarrow> check_result list
    \<Rightarrow> nat \<Rightarrow> time \<Rightarrow> sre_policy_status" where
  "final_status policy status allFindings statusFindings remediationCount now =
     (let interval = minimumInterval (sp_Checks (po_Spec policy));
          (healthy, degraded, failed) = countBySeverity allFindings
      in status\<lparr>
           st_Findings := statusFindings, st_LastScanTime := Some now,
           st_NextScanTime := Some (now + sint interval * second),
           st_TotalChecks := to_int32 (length allFindings),
           st_RemediationsApplied := to_int32 remediationCount,
           st_ObservedGeneration := po_Generation policy,
           st_HealthyCount := to_int32 healthy, st_DegradedCount := to_int32 degraded,
           st_FailedCount := to_int32 failed\<rparr>)"

definition cycle_message :: "env \<Rightarrow> check_result list \<Rightarrow> nat \<Rightarrow> duration \<Rightarrow> string" where
  "cycle_message env allFindings alerts scanDuration =
     (let (healthy, degraded, failed) = countBySeverity allFindings
      in ''Cycle: '' @ nat_str healthy @ '' healthy, '' @ nat_str degraded @ '' degraded, '' @
         nat_str failed @ '' failed | alerts: '' @ nat_str alerts @ '' | scan: '' @
         en_format_seconds env scanDuration @ ''s'')"

definition cycle_phase :: "check_result list \<Rightarrow> string" where
  "cycle_phase allFindings =
     (if 0 < snd (snd (countBySeverity allFindings)) then ''Degraded'' else ''Active'')"

text \<open>Lines 221 to 284, once the findings of the cycle are there.\<close>

definition finish_cycle :: "env \<Rightarrow> provider \<Rightarrow> sre_policy \<Rightarrow> sre_policy_status
    \<Rightarrow> sre_global_config option \<Rightarrow> check_result list \<Rightarrow> nat \<Rightarrow> nat \<Rightarrow> duration
    \<Rightarrow> (ctrl_result \<times> err option) io" where
  "finish_cycle env tel policy status globalConfig findings remediationCount alerts scanDuration = do {
     _ \<leftarrow> (if logs_enabled globalConfig then for_each findings (\<lambda>f u. LogRecord env tel f) ()
          else State_Monad.return ());
     let (allFindings, statusFindings) = cap_findings findings;
     now \<leftarrow> now_io env;
     let st1 = final_status policy status allFindings statusFindings remediationCount now;
     st2 \<leftarrow> setCondition_io env conditionTypeReady ConditionTrue ''CheckCycleComplete''
       (cycle_message env allFindings alerts scanDuration) st1;
     _ \<leftarrow> (case sp_Notifications (po_Spec policy) of
            None \<Rightarrow> emitEvents allFindings
          | Some no \<Rightarrow> if no_EventsEnabled no then emitEvents allFindings else State_Monad.return ());
     _ \<leftarrow> UpdateStatus_metric tel (po_Namespace policy @ ''/'' @ po_Name policy) st2;
     r \<leftarrow> updatePhase env (policy\<lparr>po_Status := st2\<rparr>) (cycle_phase allFindings) None;
     State_Monad.return
       ((fst r)\<lparr>cl_RequeueAfter := sint (minimumInterval (sp_Checks (po_Spec policy))) * second\<rparr>,
        snd r)
   }"

definition ocp_condition :: "env \<Rightarrow> check_result list \<Rightarrow> bool \<Rightarrow> sre_policy_status \<Rightarrow> sre_policy_status io" where
  "ocp_condition env ocpFindings ocpHealthy status =
     (let st = status\<lparr>st_OCPClusterHealthy := Some ocpHealthy\<rparr>
      in if \<not> ocpHealthy
         then setCondition_io env conditionTypeOCPHealthy ConditionFalse ''OCPClusterDegraded''
           (nat_str (length ocpFindings) @ '' OCP cluster findings'') st
         else setCondition_io env conditionTypeOCPHealthy ConditionTrue ''OCPClusterHealthy''
           ''All ClusterOperators, ClusterVersion, and MCPs healthy'' st)"

text \<open>Lines 145 to 219: the phases of a scan, from the built-in checks to the report.\<close>

definition scan :: "env \<Rightarrow> reconciler \<Rightarrow> provider \<Rightarrow> sre_policy \<Rightarrow> sre_policy_status
    \<Rightarrow> sre_global_config option \<Rightarrow> ((ctrl_result \<times> err option) \<times> reconciler) io" where
  "scan env rc tel policy status globalConfig = do {
     scanStart \<leftarrow> now_io env;
     b \<leftarrow> runBuiltInChecks env policy (resolve_namespaces policy globalConfig);
     (case b of
        (builtin, remCount, Some e) \<Rightarrow> do {
          r \<leftarrow> updatePhase env (policy\<lparr>po_Status := status\<rparr>) ''Error'' (Some e);
          State_Monad.return (r, rc) }
      | (builtin, remCount, None) \<Rightarrow> do {
          let (ocpFindings, ocpHealthy) = runOCPClusterChecks policy;
          st1 \<leftarrow> ocp_condition env ocpFindings ocpHealthy status;
          px \<leftarrow> runPrometheusChecks env rc (policy\<lparr>po_Status := st1\<rparr>) globalConfig;
          let st2 = (px_status px)\<lparr>
            st_FiringAlertCount := to_int32 (length (px_triggers px)),
            st_FiringAlertNames := map tr_AlertName (px_triggers px)\<rparr>;
          let remCount' = remCount + length (filter counted_dispatch (px_dispatches px));
          logFindings \<leftarrow> runLogCollection env (px_reconciler px) tel policy globalConfig
            (px_triggers px);
          scanEnd \<leftarrow> now_io env;
          findings \<leftarrow> run_diagnostics env policy globalConfig
            (builtin @ ocpFindings @ px_findings px @ logFindings) remCount' (scanEnd - scanStart);
          r \<leftarrow> finish_cycle env tel policy st2 globalConfig findings remCount'
            (length (px_triggers px)) (scanEnd - scanStart);
          State_Monad.return (r, px_reconciler px) })
   }"

text \<open>
  Lines 106 to 284. \<open>tel\<close> is the provider the reconciler holds when the cycle starts; a failed
  lookup of the global configuration is logged and treated like a missing one.
\<close>

definition active_cycle :: "env \<Rightarrow> reconciler \<Rightarrow> provider \<Rightarrow> sre_policy
    \<Rightarrow> (outcome \<times> reconciler) io" where
  "active_cycle env rc tel policy = do {
     g \<leftarrow> do_call (GetGlobalConfig globalConfigName) (\<lambda>h. en_get_global env h globalConfigName);
     let globalConfig = (case g of Inl e \<Rightarrow> None | Inr gc \<Rightarrow> Some gc);
     ot \<leftarrow> refresh_otel env rc globalConfig (po_Status policy);
     let tel' = (case rc_Telemetry (fst ot) of None \<Rightarrow> tel | Some p \<Rightarrow> p);
     s \<leftarrow> scan env (fst ot) tel' policy (snd ot) globalConfig;
     State_Monad.return (Returned (fst (fst s)) (snd (fst s)), snd s)
   }"

definition Reconcile :: "env \<Rightarrow> reconciler \<Rightarrow> string \<Rightarrow> string \<Rightarrow> (outcome \<times> reconciler) io" where
  "Reconcile env rc ns name = do {
     p \<leftarrow> do_call (GetPolicy ns name) (\<lambda>h. en_get_policy env h ns name);
     (case p of
        Inl e \<Rightarrow> State_Monad.return
          (if is_not_found e then (Returned no_result None, rc)
           else (Returned no_result (Some (''get SREPolicy: '' @ api_error_msg e)), rc))
      | Inr policy \<Rightarrow>
          if po_DeletionTimestamp policy \<noteq> None then do {
            r \<leftarrow> handleDeletion env policy;
            State_Monad.return (Returned (fst r) (snd r), rc) }
          else if \<not> containsString (po_Finalizers policy) finalizerName then do {
            e \<leftarrow> update_policy env
              (policy\<lparr>po_Finalizers := po_Finalizers policy @ [finalizerName]\<rparr>);
            State_Monad.return
              (case e of
                 Some er \<Rightarrow> (Returned no_result (Some (''add finalizer: '' @ api_error_msg er)), rc)
               | None \<Rightarrow> (Returned (no_result\<lparr>cl_Requeue := True\<rparr>) None, rc)) }
          else if sp_Paused (po_Spec policy) then do {
            r \<leftarrow> updatePhase env policy ''Paused'' None;
            State_Monad.return (Returned (fst r) (snd r), rc) }
          else (case rc_Telemetry rc of
              None \<Rightarrow> State_Monad.return (Panicked, rc)
            | Some tel \<Rightarrow> active_cycle env rc tel policy))
   }"

end
