(* ===== verification/Reconcile_Values.thy ===== *)
theory Reconcile_Values
  imports Reconciler
begin

text \<open>
  What the parts of a reconcile cycle return, whatever the API server answers: the built-in and
  OCP checks find nothing, Prometheus fires nothing, findings come from log collection only, and
  of the status a cycle builds on only the operator's own conditions change.
\<close>

section \<open>Results of the pieces\<close>

lemma run_updatePhase:
  "run_state (updatePhase env policy phase None) h =
     (let p = policy\<lparr>po_Status := (po_Status policy)\<lparr>st_Phase := phase\<rparr>\<rparr>
      in (case en_update_status env h p of
            Some e \<Rightarrow> (no_result, Some (''update status: '' @ api_error_msg e))
          | None \<Rightarrow> (no_result\<lparr>cl_RequeueAfter := defaultRequeueAfter\<rparr>, None),
          h @ [UpdateStatus p]))"
  by (simp add: updatePhase_def Let_def split: option.splits)

lemma run_emitEvents:
  "run_state (emitEvents fs) h =
     ((), h @ map event_for (filter (\<lambda>f. cr_Status f \<noteq> ''Healthy'') fs))"
  unfolding emitEvents_def by (induction fs arbitrary: h) simp_all

lemma yields_runBuiltInChecks:
  "yields (\<lambda>b. b = ([], 0, None)) (runBuiltInChecks env policy nss)"
  unfolding runBuiltInChecks_def checkers_for_def for_each.simps
  by (intro yields_bind [of "\<lambda>acc. acc = ([], 0)"] yields_for_each yields_return)
    (auto intro!: yields_for_each yields_return)

lemma runOCPClusterChecks_eq: "runOCPClusterChecks policy = ([], True)"
  by (simp add: runOCPClusterChecks_def NewOCPClusterChecker_def dummyChecker_def
      split: option.splits)

lemma run_diagnostics_value: "yields (\<lambda>r. r = fs) (run_diagnostics env policy g fs n d)"
  unfolding run_diagnostics_def Build_report_def
  by (simp, intro yields_bind [of "\<lambda>_. True"] yields_any yields_return) simp_all

text \<open>
  How a cycle may change the conditions: by setting one of the operator's four types to True or,
  but for Ready, to False. The rest of the status a cycle builds on is carried over.
\<close>

definition operator_conditions :: "string set" where
  "operator_conditions = {conditionTypeReady, conditionTypeOTelHealthy,
     conditionTypePromHealthy, conditionTypeOCPHealthy}"

inductive conditions_evolve :: "status_condition list \<Rightarrow> status_condition list \<Rightarrow> bool" where
  ce_refl: "conditions_evolve cs cs"
| ce_set: "conditions_evolve cs ds \<Longrightarrow> ty \<in> operator_conditions \<Longrightarrow>
    fst v \<in> {ConditionTrue, ConditionFalse} \<Longrightarrow> (ty = conditionTypeReady \<longrightarrow> fst v = ConditionTrue) \<Longrightarrow>
    conditions_evolve cs (set_condition_in ty v ds)"

inductive_cases conditions_evolveE [elim]: "conditions_evolve cs ds"

lemma not_ready [simp]:
  "conditionTypeOTelHealthy \<noteq> conditionTypeReady" "conditionTypePromHealthy \<noteq> conditionTypeReady"
  "conditionTypeOCPHealthy \<noteq> conditionTypeReady"
  by (simp_all add: conditionTypeOTelHealthy_def conditionTypePromHealthy_def
      conditionTypeOCPHealthy_def conditionTypeReady_def)

definition carried :: "sre_policy \<Rightarrow> sre_policy_status \<Rightarrow> bool" where
  "carried policy st \<longleftrightarrow>
     conditions_evolve (st_Conditions (po_Status policy)) (st_Conditions st) \<and>
     st_ActiveWorkflows st = st_ActiveWorkflows (po_Status policy)"

lemma carried_refl: "carried policy (po_Status policy)"
  by (simp add: carried_def ce_refl)

lemma carried_setCondition:
  "carried policy st \<Longrightarrow> ty \<in> operator_conditions \<Longrightarrow> s \<in> {ConditionTrue, ConditionFalse} \<Longrightarrow>
     ty = conditionTypeReady \<longrightarrow> s = ConditionTrue \<Longrightarrow> carried policy (setCondition now ty s r m st)"
  by (auto simp: carried_def setCondition_def intro!: ce_set)

lemma carried_cong:
  "carried policy st \<Longrightarrow> st_Conditions st' = st_Conditions st \<Longrightarrow>
     st_ActiveWorkflows st' = st_ActiveWorkflows st \<Longrightarrow> carried policy st'"
  by (simp add: carried_def)

lemma carried_endpoint [simp]:
  "carried policy (st\<lparr>st_ObservabilityEndpointReachable := b\<rparr>) = carried policy st"
  by (simp add: carried_def)

lemma yields_setCondition_io:
  "carried policy st \<Longrightarrow> ty \<in> operator_conditions \<Longrightarrow> s \<in> {ConditionTrue, ConditionFalse} \<Longrightarrow>
     ty = conditionTypeReady \<longrightarrow> s = ConditionTrue \<Longrightarrow> yields (carried policy) (setCondition_io env ty s r m st)"
  by (simp add: yields_def setCondition_io_def now_io_def carried_setCondition)

lemma yields_ocp_condition:
  "carried policy st \<Longrightarrow> yields (carried policy) (ocp_condition env fs ok st)"
  unfolding ocp_condition_def Let_def
  by (auto intro!: yields_setCondition_io elim!: carried_cong simp: operator_conditions_def)

text \<open>A Prometheus run finds nothing, and of the status only sets a condition.\<close>

definition prom_run_ok :: "sre_policy \<Rightarrow> prom_outcome \<Rightarrow> bool" where
  "prom_run_ok policy px \<longleftrightarrow> px_findings px = [] \<and> px_triggers px = [] \<and> px_dispatches px = [] \<and>
     carried policy (px_status px)"

lemma yields_run_alert_triggers:
  "prom_run_ok policy o0 \<Longrightarrow> yields (prom_run_ok policy) (run_alert_triggers env ts o0)"
  by (simp add: run_alert_triggers_def Evaluate_def Dispatch_def yields_def prom_run_ok_def
      setCondition_io_def now_io_def carried_setCondition operator_conditions_def)

lemma yields_runPrometheusChecks:
  assumes "carried policy (po_Status p)"
  shows "yields (prom_run_ok policy) (runPrometheusChecks env rc p g)"
proof -
  have none: "prom_run_ok policy \<lparr>px_findings = [], px_triggers = [], px_dispatches = [],
      px_status = po_Status p, px_reconciler = rc'\<rparr>" for rc'
    using assms by (simp add: prom_run_ok_def)
  have "prom_run_ok policy (run_metric_queries qs o0)" if "prom_run_ok policy o0" for qs o0
    using that by (simp add: run_metric_queries_def EvaluateAll_def prom_run_ok_def)
  then have "yields (prom_run_ok policy) (do { rc' \<leftarrow> reuse_client env rc gp;
      o1 \<leftarrow> run_alert_triggers env ts (\<lparr>px_findings = [], px_triggers = [], px_dispatches = [],
        px_status = po_Status p, px_reconciler = rc\<rparr>\<lparr>px_reconciler := rc'\<rparr>);
      State_Monad.return (run_metric_queries qs o1) })" for gp ts qs
    using none by (intro yields_bind [OF yields_any [of "\<lambda>_. True"]]
        yields_bind [OF yields_run_alert_triggers [of policy]] yields_return) simp_all
  then show ?thesis unfolding runPrometheusChecks_def Let_def
    by (auto intro: yields_return none split: option.split)
qed

text \<open>Findings can only come from log collection.\<close>

definition log_finding :: "check_result \<Rightarrow> bool" where
  "log_finding f = (cr_CheckName f = ''log-collection'' \<and> cr_Category f = CheckCategoryLogs \<and>
     cr_Status f \<in> {''Degraded'', ''Unknown''} \<and> cr_RemediationAttempts f = 0)"

definition collects_logs :: "reconciler \<Rightarrow> sre_policy \<Rightarrow> bool" where
  "collects_logs rc policy =
     (case sp_LogCollection (po_Spec policy) of
        None \<Rightarrow> False
      | Some spec \<Rightarrow> lc_Enabled spec \<and> rc_KubeClient rc \<and> \<not> lc_OnAlertOnly spec)"

text \<open>The findings of a collection, by the specification of \<open>ToCheckResults\<close>, and what is collected.\<close>

definition log_findings :: "time \<Rightarrow> log_collection \<Rightarrow> check_result list" where
  "log_findings t lc =
     map (entry_result ''log-collection'' t) (first_by entry_key (lo_VMPodLogs lc @ lo_OperatorLogs lc)) @
     map (error_result ''log-collection'' t) (lo_Errors lc)"

definition collected :: "env \<Rightarrow> sre_policy \<Rightarrow> log_collection \<Rightarrow> bool" where
  "collected env policy lc \<longleftrightarrow>
     (\<exists>spec h h'. sp_LogCollection (po_Spec policy) = Some spec \<and>
        run_state (Collect env spec (sp_TargetNamespaces (po_Spec policy))) h = (Inr lc, h'))"

definition reported :: "env \<Rightarrow> sre_policy \<Rightarrow> check_result \<Rightarrow> bool" where
  "reported env policy f \<longleftrightarrow> (\<exists>t lc. collected env policy lc \<and> f \<in> set (log_findings t lc))"

lemma log_findings_kind: "f \<in> set (log_findings t lc) \<Longrightarrow> log_finding f"
  by (auto simp: log_findings_def log_finding_def entry_result_def error_result_def log_result_def)

lemma reported_kind: "reported env policy f \<Longrightarrow> log_finding f"
  by (auto simp: reported_def log_findings_kind)

lemma run_ToCheckResults:
  "run_state (ToCheckResults env lc ''log-collection'') h = (log_findings (en_now env h) lc, h @ [ReadClock])"
  by (simp add: ToCheckResults_def now_io_def dedup_loop_first_by log_findings_def)

lemma yields_collect_and_store:
  assumes spec: "sp_LogCollection (po_Spec policy) = Some spec"
  shows "yields (list_all (reported env policy)) (collect_and_store env tel policy g spec)"
  unfolding collect_and_store_def
proof (rule yields_bind [OF yields_outcome])
  fix r assume "\<exists>h h'. run_state (Collect env spec (sp_TargetNamespaces (po_Spec policy))) h = (r, h')"
  then have coll: "collected env policy lc" if "r = Inr lc" for lc
    using spec that unfolding collected_def by blast
  show "yields (list_all (reported env policy)) (case r of Inl e \<Rightarrow> State_Monad.return [] | Inr collection \<Rightarrow>
      do { let summary = FormatReport collection;
          let cm = log_config_map policy collection summary;
          createErr \<leftarrow> do_call (CreateConfigMap cm) (\<lambda>h. en_create_config_map env h cm);
          _ \<leftarrow> (case createErr of
                 Some e \<Rightarrow> State_Monad.return ()
               | None \<Rightarrow> rotate_if_configured env policy g
                   ''sre.kubevirt.io/component=log-diagnostics'');
          _ \<leftarrow> (if logs_enabled g then LogSummary env tel summary else State_Monad.return ());
          ToCheckResults env collection ''log-collection'' })"
  proof (cases r)
    case (Inl e)
    then show ?thesis by (simp add: yields_return)
  next
    case (Inr lc)
    have "yields (list_all (reported env policy)) (ToCheckResults env lc ''log-collection'')"
      using coll [OF Inr] by (auto simp: yields_def run_ToCheckResults list_all_iff reported_def)
    then show ?thesis unfolding Inr sum.case Let_def
      by (intro yields_bind [OF yields_any [of "\<lambda>_. True", OF TrueI]])
  qed
qed

lemma yields_runLogCollection:
  "yields (\<lambda>fs. list_all (reported env policy) fs \<and> (\<not> collects_logs rc policy \<longrightarrow> fs = []))
     (runLogCollection env rc tel policy g [])"
proof (cases "collects_logs rc policy")
  case True
  then obtain spec where spec: "sp_LogCollection (po_Spec policy) = Some spec" "lc_Enabled spec"
    "rc_KubeClient rc" "\<not> lc_OnAlertOnly spec"
    by (auto simp: collects_logs_def split: option.splits)
  with yields_collect_and_store [OF spec(1)] True show ?thesis by (simp add: runLogCollection_def)
next
  case False
  then show ?thesis
    by (auto simp: runLogCollection_def collects_logs_def yields_return split: option.splits)
qed

section \<open>The reconciler a part returns\<close>

definition same_kube :: "reconciler \<Rightarrow> reconciler \<Rightarrow> bool" where
  "same_kube rc rc' \<longleftrightarrow> rc_KubeClient rc' = rc_KubeClient rc"

lemma yields_reuse_client:
  "yields (\<lambda>rc'. same_kube rc rc' \<and> rc_Telemetry rc' = rc_Telemetry rc) (reuse_client env rc g)"
  unfolding reuse_client_def same_kube_def yields_def by (auto simp: split_beta)

lemma px_reconciler_triggers:
  "px_reconciler (fst (run_state (run_alert_triggers env ts o0) h)) = px_reconciler o0"
  by (simp add: run_alert_triggers_def Evaluate_def split_beta)

lemma px_reconciler_queries: "px_reconciler (run_metric_queries qs o0) = px_reconciler o0"
  by (simp add: run_metric_queries_def EvaluateAll_def)

lemma yields_prom_reconciler:
  assumes "carried policy (po_Status p)"
  shows "yields (\<lambda>px. prom_run_ok policy px \<and> same_kube rc (px_reconciler px))
     (runPrometheusChecks env rc p g)"
proof -
  have "same_kube rc (px_reconciler (fst (run_state (runPrometheusChecks env rc p g) h)))" for h
    using yields_reuse_client [of rc env]
    by (auto simp: runPrometheusChecks_def Let_def split_beta px_reconciler_queries
        px_reconciler_triggers yields_def same_kube_def split: option.splits)
  then show ?thesis using yields_runPrometheusChecks [OF assms] by (auto simp: yields_def)
qed

lemma same_kube_logs: "same_kube rc rc' \<Longrightarrow> collects_logs rc' policy = collects_logs rc policy"
  by (simp add: same_kube_def collects_logs_def split: option.split)

lemma refresh_otel_keeps:
  assumes "carried policy st"
  shows "yields (\<lambda>r. same_kube rc (fst r) \<and> rc_promClient (fst r) = rc_promClient rc \<and>
      rc_lastPromConfig (fst r) = rc_lastPromConfig rc \<and>
      (rc_Telemetry rc \<noteq> None \<longrightarrow> rc_Telemetry (fst r) \<noteq> None) \<and> carried policy (snd r))
    (refresh_otel env rc g st)"
  unfolding refresh_otel_def reconcileOTel_def yields_def same_kube_def setCondition_io_def now_io_def
  using assms by (auto simp: split_beta operator_conditions_def carried_setCondition
      split: option.split sum.split prod.split)

end
