(* ===== verification/Reconcile_Safety.thy ===== *)
theory Reconcile_Safety
  imports Reconcile_Values
begin

text \<open>
  What a reconcile cycle can do to the world: the calls each part of the cycle makes, by the
  structural rules of Cluster_Api and the values of Reconcile_Values, up to one statement about
  every call of a cycle; and the ConfigMap rotation.
\<close>

section \<open>Calls\<close>

lemma rotation_labels_eval:
  "rotation_labels ''sre.kubevirt.io/component=diagnostics'' =
     [(''sre.kubevirt.io/component'', ''diagnostics'')]"
  "rotation_labels ''sre.kubevirt.io/component=log-diagnostics'' =
     [(''sre.kubevirt.io/component'', ''log-diagnostics'')]"
  by code_simp+

text \<open>
  What a cycle knows and wants: a global configuration it may have read, the rotations it
  may run, and whether the policy asks for events.
\<close>

definition config_read :: "env \<Rightarrow> sre_global_config \<Rightarrow> bool" where
  "config_read env gc \<longleftrightarrow> (\<exists>h. en_get_global env h globalConfigName = Inr gc)"

definition rotation_sel :: "reconciler \<Rightarrow> sre_policy \<Rightarrow> (string, string) gomap \<Rightarrow> bool" where
  "rotation_sel rc policy sel \<longleftrightarrow>
     sel = [(''sre.kubevirt.io/component'', ''diagnostics'')] \<or>
     sel = [(''sre.kubevirt.io/component'', ''log-diagnostics'')] \<and> collects_logs rc policy"

definition events_wanted :: "sre_policy \<Rightarrow> bool" where
  "events_wanted policy \<longleftrightarrow>
     (case sp_Notifications (po_Spec policy) of None \<Rightarrow> True | Some no \<Rightarrow> no_EventsEnabled no)"

definition log_call :: "env \<Rightarrow> reconciler \<Rightarrow> sre_policy \<Rightarrow> api_call \<Rightarrow> bool" where
  "log_call env rc policy c \<longleftrightarrow> collects_logs rc policy \<and>
     (\<exists>spec. sp_LogCollection (po_Spec policy) = Some spec \<and>
        log_read_call env spec (sp_TargetNamespaces (po_Spec policy)) c)"

text \<open>
  The calls a scan may make for a policy. It never sends an HTTP request and writes neither the
  policy nor its status. Pods are listed, logs streamed and ConfigMaps created only when the
  policy collects logs, and then as its log specification says; a created ConfigMap holds the
  report of such a collection. Only a rotation deletes, and only the surplus ConfigMaps of a
  list of the policy's namespace. Events and emitted records are about such a collection, and
  go out only when the policy wants events, and a configuration wants logs.
\<close>

fun scan_call :: "env \<Rightarrow> reconciler \<Rightarrow> sre_policy \<Rightarrow> api_call \<Rightarrow> bool" where
  "scan_call env rc policy (GetPolicy ns n) = False"
| "scan_call env rc policy (GetGlobalConfig n) = (n = globalConfigName)"
| "scan_call env rc policy (UpdatePolicy p) = False"
| "scan_call env rc policy (UpdateStatus p) = False"
| "scan_call env rc policy (ListConfigMaps ns sel) =
     (ns = po_Namespace policy \<and> rotation_sel rc policy sel \<and>
      (\<exists>gc. config_read env gc \<and> max_copies (Some gc) \<noteq> None))"
| "scan_call env rc policy (CreateConfigMap cm) =
     (collects_logs rc policy \<and> cm_Namespace cm = po_Namespace policy \<and>
      cm_GenerateName cm = ''sre-log-diagnostics-'' \<and>
      cm_Labels cm = [(''sre.kubevirt.io/component'', ''log-diagnostics'')] \<and>
      (\<exists>lc. collected env policy lc \<and> map_of (cm_Data cm) ''log-summary.txt'' = Some (FormatReport lc)))"
| "scan_call env rc policy (DeleteConfigMap cm) =
     (\<exists>gc n h sel items. config_read env gc \<and> max_copies (Some gc) = Some n \<and> rotation_sel rc policy sel \<and>
        en_list_config_maps env h (po_Namespace policy) sel = Inr items \<and>
        cm \<in> set (take (nat (int (length items) - n)) (en_sort_config_maps env items)))"
| "scan_call env rc policy (ListPods ns sel) = log_call env rc policy (ListPods ns sel)"
| "scan_call env rc policy (StreamLogs r) = log_call env rc policy (StreamLogs r)"
| "scan_call env rc policy (RecordEvent ty reason msg) =
     (collects_logs rc policy \<and> events_wanted policy \<and>
      (\<exists>f. reported env policy f \<and> RecordEvent ty reason msg = event_for f))"
| "scan_call env rc policy ReadClock = True"
| "scan_call env rc policy (ReadFile path) =
     (\<exists>promSpec gc gp. sp_Prometheus (po_Spec policy) = Some promSpec \<and> pr_Enabled promSpec \<and>
        config_read env gc \<and> gs_Prometheus (gc_Spec gc) = Some gp \<and>
        path = (case gp_BearerTokenSecretRef gp of
            None \<Rightarrow> tokenPath
          | Some r \<Rightarrow> ''/var/run/secrets/prometheus/'' @ sk_Name r @ ''/'' @ sk_Key r))"
| "scan_call env rc policy (HttpDo req) = False"
| "scan_call env rc policy (NewExporter kind endpoint) =
     (\<exists>gc ob. config_read env gc \<and> gs_Observability (gc_Spec gc) = Some ob \<and>
        ob_OTelEndpoint ob \<noteq> rc_lastOTelEndpoint rc \<and> exporter_call ob (NewExporter kind endpoint))"
| "scan_call env rc policy (EmitLog r) =
     (collects_logs rc policy \<and> (\<exists>gc. config_read env gc \<and> logs_enabled (Some gc)) \<and>
      ((\<exists>f. reported env policy f \<and> ol_Body r = cr_Message f) \<or>
       (\<exists>lc. collected env policy lc \<and> ol_Body r = FormatReport lc)))"

text \<open>
  A whole cycle may also write this policy: of the object only its own finalizer, or the status.
\<close>

fun policy_call :: "env \<Rightarrow> reconciler \<Rightarrow> sre_policy \<Rightarrow> api_call \<Rightarrow> bool" where
  "policy_call env rc policy (UpdatePolicy p) =
     (p\<lparr>po_Finalizers := po_Finalizers policy\<rparr> = policy \<and>
      removeString (po_Finalizers p) finalizerName = removeString (po_Finalizers policy) finalizerName)"
| "policy_call env rc policy (UpdateStatus p) = (p\<lparr>po_Status := po_Status policy\<rparr> = policy)"
| "policy_call env rc policy c = scan_call env rc policy c"

lemma scan_policy_call: "scan_call env rc policy c \<Longrightarrow> policy_call env rc policy c"
  by (cases c) simp_all

lemma emits_scan_policy:
  "emits (scan_call env rc policy) m \<Longrightarrow> emits (policy_call env rc policy) m"
  by (erule emits_mono) (rule scan_policy_call)

lemma emits_setCondition [emits_intros]:
  "P ReadClock \<Longrightarrow> emits P (setCondition_io env ty st r m status)"
  unfolding setCondition_io_def by (intro emits_intros)

lemma emits_updatePhase:
  "p\<lparr>po_Status := po_Status policy\<rparr> = policy \<Longrightarrow>
     emits (policy_call env rc policy) (updatePhase env p phase e)"
  unfolding updatePhase_def by (intro emits_intros) (auto simp: Let_def intro: emits_intros)

section \<open>Rotation\<close>

lemma emits_delete_config_maps:
  "(\<And>cm. cm \<in> set cms \<Longrightarrow> P (DeleteConfigMap cm)) \<Longrightarrow> emits P (delete_config_maps env cms)"
  unfolding delete_config_maps_def by (intro emits_for_each_mem emits_bind emits_do_call emits_return)

lemma emits_rotateConfigMaps:
  assumes gc: "config_read env gc" "max_copies (Some gc) = Some n"
    and sel: "rotation_sel rc policy (rotation_labels selector)"
  shows "emits (scan_call env rc policy) (rotateConfigMaps env policy selector n)"
  unfolding rotateConfigMaps_def
proof (rule emits_do_call_query)
  show "scan_call env rc policy (ListConfigMaps (po_Namespace policy) (rotation_labels selector))"
    using gc sel by auto
  fix h
  let ?r = "en_list_config_maps env h (po_Namespace policy) (rotation_labels selector)"
  show "emits (scan_call env rc policy)
     (case ?r of Inl e \<Rightarrow> State_Monad.return ()
      | Inr items \<Rightarrow> if int (length items) \<le> n then State_Monad.return ()
          else delete_config_maps env
            (take (nat (int (length items) - n)) (en_sort_config_maps env items)))"
  proof (cases ?r)
    case (Inl e)
    then show ?thesis by (simp add: emits_return)
  next
    case (Inr items)
    have "scan_call env rc policy (DeleteConfigMap cm)"
      if "cm \<in> set (take (nat (int (length items) - n)) (en_sort_config_maps env items))" for cm
      unfolding scan_call.simps using gc sel Inr that by blast
    then show ?thesis unfolding Inr sum.case
      by (intro emits_if emits_return emits_delete_config_maps)
  qed
qed

text \<open>The configuration a part is given is one that was read.\<close>

definition given_config :: "env \<Rightarrow> sre_global_config option \<Rightarrow> bool" where
  "given_config env g \<longleftrightarrow> (\<forall>gc. g = Some gc \<longrightarrow> config_read env gc)"

lemma emits_rotate_if_configured:
  assumes "given_config env g" and "rotation_sel rc policy (rotation_labels selector)"
  shows "emits (scan_call env rc policy) (rotate_if_configured env policy g selector)"
proof (cases "max_copies g")
  case None
  then show ?thesis by (simp add: rotate_if_configured_def emits_return)
next
  case (Some n)
  then obtain gc where "g = Some gc" by (cases g) (simp_all add: max_copies_def)
  with Some assms show ?thesis
    using emits_rotateConfigMaps [of env gc n rc policy selector]
    by (simp add: rotate_if_configured_def given_config_def)
qed

lemma rotation_sel_eval [simp]:
  "rotation_sel rc policy (rotation_labels ''sre.kubevirt.io/component=diagnostics'')"
  "rotation_sel rc policy (rotation_labels ''sre.kubevirt.io/component=log-diagnostics'') \<longleftrightarrow>
     collects_logs rc policy"
  unfolding rotation_labels_eval by (simp_all add: rotation_sel_def)

section \<open>Log collection\<close>

lemma emit_call_scan:
  assumes "collects_logs rc policy" and "given_config env g" and "logs_enabled g"
    and "(\<exists>f. reported env policy f \<and> body = cr_Message f) \<or> (\<exists>lc. collected env policy lc \<and> body = FormatReport lc)"
  shows "emit_call body c \<Longrightarrow> scan_call env rc policy c"
proof -
  obtain gc where gc: "g = Some gc" using assms(3) by (cases g) (simp_all add: logs_enabled_def)
  then have "config_read env gc" using assms(2) by (simp add: given_config_def)
  then show "emit_call body c \<Longrightarrow> scan_call env rc policy c"
    using assms(1,3,4) gc by (auto simp: emit_call_def)
qed

lemma emits_collect_and_store:
  assumes spec: "sp_LogCollection (po_Spec policy) = Some spec" and on: "collects_logs rc policy"
    and g: "given_config env g"
  shows "emits (scan_call env rc policy) (collect_and_store env tel policy g spec)"
  unfolding collect_and_store_def
proof (rule emits_bind_yields [OF _ yields_outcome])
  show "emits (scan_call env rc policy) (Collect env spec (sp_TargetNamespaces (po_Spec policy)))"
  proof (rule emits_mono [OF emits_Collect])
    fix c assume "log_read_call env spec (sp_TargetNamespaces (po_Spec policy)) c"
    with spec on show "scan_call env rc policy c" by (cases c) (auto simp: log_call_def)
  qed
  fix r assume "\<exists>h h'. run_state (Collect env spec (sp_TargetNamespaces (po_Spec policy))) h = (r, h')"
  then have coll: "collected env policy lc" if "r = Inr lc" for lc
    using spec that unfolding collected_def by blast
  have create: "scan_call env rc policy (CreateConfigMap (log_config_map policy lc (FormatReport lc)))"
    if "r = Inr lc" for lc
    using on coll [OF that] by (auto simp: log_config_map_def logDiagnosticsConfigMap_def)
  have emit: "emits (scan_call env rc policy) (LogSummary env tel (FormatReport lc))"
    if "r = Inr lc" "logs_enabled g" for lc
    using coll [OF that(1)] by (intro emits_mono [OF emits_LogSummary emit_call_scan [OF on g that(2)]]) auto
  show "emits (scan_call env rc policy) (case r of Inl e \<Rightarrow> State_Monad.return [] | Inr collection \<Rightarrow>
      do { let summary = FormatReport collection;
          let cm = log_config_map policy collection summary;
          createErr \<leftarrow> do_call (CreateConfigMap cm) (\<lambda>h. en_create_config_map env h cm);
          _ \<leftarrow> (case createErr of
                 Some e \<Rightarrow> State_Monad.return ()
               | None \<Rightarrow> rotate_if_configured env policy g
                   ''sre.kubevirt.io/component=log-diagnostics'');
          _ \<leftarrow> (if logs_enabled g then LogSummary env tel summary else State_Monad.return ());
          ToCheckResults env collection ''log-collection'' })"
    unfolding Let_def ToCheckResults_def
    by (intro emits_bind emits_case_sum emits_case_option emits_if emits_return emits_now
        emits_do_call emits_rotate_if_configured [OF g] create emit) (simp_all add: on)
qed

lemma emits_runLogCollection:
  assumes "same_kube rc rc'" and g: "given_config env g"
  shows "emits (scan_call env rc policy) (runLogCollection env rc' tel policy g [])"
proof (cases "collects_logs rc' policy")
  case True
  then obtain spec where spec: "sp_LogCollection (po_Spec policy) = Some spec" "lc_Enabled spec"
    "rc_KubeClient rc'" "\<not> lc_OnAlertOnly spec"
    by (auto simp: collects_logs_def split: option.splits)
  have "collects_logs rc policy" using True same_kube_logs [OF assms(1)] by simp
  from emits_collect_and_store [OF spec(1) this g] show ?thesis
    using spec by (simp add: runLogCollection_def)
next
  case False
  then show ?thesis
    by (auto simp: runLogCollection_def collects_logs_def emits_return split: option.splits)
qed

section \<open>The other parts\<close>

lemma emits_run_checker: "P ReadClock \<Longrightarrow> emits P (run_checker env spec ch acc)"
  unfolding run_checker_def by (intro emits_intros)

lemma emits_runBuiltInChecks: "P ReadClock \<Longrightarrow> emits P (runBuiltInChecks env policy nss)"
  unfolding runBuiltInChecks_def by (intro emits_intros emits_run_checker)

lemma emits_ocp_condition: "P ReadClock \<Longrightarrow> emits P (ocp_condition env fs ok st)"
  unfolding ocp_condition_def by (intro emits_intros)

lemma token_path_for:
  "(if pf_BearerTokenPath (promConfig g) \<noteq> [] then pf_BearerTokenPath (promConfig g) else tokenPath) =
     (case gp_BearerTokenSecretRef g of None \<Rightarrow> tokenPath
      | Some r \<Rightarrow> ''/var/run/secrets/prometheus/'' @ sk_Name r @ ''/'' @ sk_Key r)"
  by (simp add: promConfig_def split: option.split)

lemma emits_reuse_client:
  "P (ReadFile (case gp_BearerTokenSecretRef g of None \<Rightarrow> tokenPath
      | Some r \<Rightarrow> ''/var/run/secrets/prometheus/'' @ sk_Name r @ ''/'' @ sk_Key r)) \<Longrightarrow>
     emits P (reuse_client env rc g)"
  unfolding reuse_client_def
  by (intro emits_if emits_bind emits_return emits_NewClient) (simp only: token_path_for)

lemma emits_run_alert_triggers: "P ReadClock \<Longrightarrow> emits P (run_alert_triggers env ts o0)"
  unfolding run_alert_triggers_def by (intro emits_intros)

lemma emits_runPrometheusChecks:
  assumes spec: "sp_Prometheus (po_Spec p) = sp_Prometheus (po_Spec policy)" and g: "given_config env g"
  shows "emits (scan_call env rc policy) (runPrometheusChecks env rc' p g)"
  unfolding runPrometheusChecks_def Let_def spec
proof (intro emits_case_option emits_if emits_bind emits_return emits_run_alert_triggers)
  fix promSpec gp
  assume "sp_Prometheus (po_Spec policy) = Some promSpec" "global_prometheus g = Some gp" "\<not> \<not> pr_Enabled promSpec"
  moreover from this(2) obtain gc where "g = Some gc" "gs_Prometheus (gc_Spec gc) = Some gp"
    by (cases g) (simp_all add: global_prometheus_def)
  ultimately show "emits (scan_call env rc policy) (reuse_client env rc' gp)"
    using g by (intro emits_reuse_client) (auto simp: given_config_def)
qed simp

lemma emits_refresh_otel:
  assumes g: "given_config env g"
  shows "emits (scan_call env rc policy) (refresh_otel env rc g st)"
proof (cases "observability_wanted g")
  case None
  then show ?thesis by (simp add: refresh_otel_def emits_return)
next
  case (Some w)
  then obtain gc ob where w: "observability_wanted g = Some (gc, ob)" by (cases w) simp
  then have gc: "g = Some gc" "gs_Observability (gc_Spec gc) = Some ob"
    by (auto simp: observability_wanted_def split: option.splits if_splits)
  show ?thesis
  proof (cases "ob_OTelEndpoint ob = rc_lastOTelEndpoint rc")
    case True
    then show ?thesis by (simp add: refresh_otel_def w emits_return)
  next
    case False
    have "emits (scan_call env rc policy) (NewProvider env (Some ob))"
    proof (rule emits_mono [OF emits_NewProvider])
      fix c assume "exporter_call ob c"
      with g gc False show "scan_call env rc policy c"
        by (cases c) (auto simp: exporter_call_def given_config_def)
    qed
    then show ?thesis
      unfolding refresh_otel_def reconcileOTel_def w option.case prod.case gc(2)
      by (intro emits_if emits_case_option emits_bind emits_return emits_setCondition) simp_all
  qed
qed

lemma emits_run_diagnostics:
  "given_config env g \<Longrightarrow> emits (scan_call env rc policy) (run_diagnostics env policy g fs n d)"
  unfolding run_diagnostics_def
  by (intro emits_case_sum emits_bind emits_case_option emits_return emits_rotate_if_configured) simp_all

lemma emits_emitEvents:
  "(\<And>f. f \<in> set fs \<Longrightarrow> P (event_for f)) \<Longrightarrow> emits P (emitEvents fs)"
  unfolding emitEvents_def by (intro emits_for_each_mem emits_if emits_do_call emits_return)

text \<open>The findings of a cycle, as far as calls depend on them.\<close>

definition cycle_findings_ok :: "env \<Rightarrow> reconciler \<Rightarrow> sre_policy \<Rightarrow> check_result list \<Rightarrow> bool" where
  "cycle_findings_ok env rc policy fs \<longleftrightarrow>
     list_all (reported env policy) fs \<and> (\<not> collects_logs rc policy \<longrightarrow> fs = [])"

lemma finding_event:
  assumes "cycle_findings_ok env rc policy fs" and "events_wanted policy" and "f \<in> set fs"
  shows "scan_call env rc policy (event_for f)"
proof -
  have "reported env policy f" "collects_logs rc policy"
    using assms(1,3) by (auto simp: cycle_findings_ok_def list_all_iff)
  with assms(2) show ?thesis unfolding event_for_def scan_call.simps by blast
qed

lemma emits_events:
  assumes "cycle_findings_ok env rc policy fs"
  shows "emits (scan_call env rc policy)
    (case sp_Notifications (po_Spec policy) of
       None \<Rightarrow> emitEvents fs
     | Some no \<Rightarrow> if no_EventsEnabled no then emitEvents fs else State_Monad.return ())"
proof (cases "events_wanted policy")
  case True
  then have "emits (scan_call env rc policy) (emitEvents fs)"
    by (intro emits_emitEvents finding_event [OF assms])
  then show ?thesis by (intro emits_case_option emits_if emits_return)
next
  case False
  then show ?thesis by (auto simp: events_wanted_def emits_return split: option.splits)
qed

lemma emits_records:
  assumes "cycle_findings_ok env rc policy fs" and "given_config env g"
  shows "emits (scan_call env rc policy)
    (if logs_enabled g then for_each fs (\<lambda>f u. LogRecord env tel f) () else State_Monad.return ())"
proof (intro emits_if emits_for_each_mem emits_return)
  fix f assume "logs_enabled g" "f \<in> set fs"
  moreover from this(2) have "reported env policy f" "collects_logs rc policy"
    using assms(1) by (auto simp: cycle_findings_ok_def list_all_iff)
  ultimately show "emits (scan_call env rc policy) (LogRecord env tel f)"
    using assms(2) by (intro emits_mono [OF emits_LogRecord emit_call_scan]) auto
qed

lemma cap_findings_ok:
  "cycle_findings_ok env rc policy fs \<Longrightarrow> cycle_findings_ok env rc policy (fst (cap_findings fs))"
  by (auto simp: cycle_findings_ok_def cap_findings_def list_all_iff sorted_findings(3) maxStatusFindings_def)

lemma emits_finish_cycle:
  assumes fs: "cycle_findings_ok env rc policy fs" and g: "given_config env g"
  shows "emits (policy_call env rc policy) (finish_cycle env tel policy st g fs n k d)"
proof -
  note parts = emits_scan_policy [OF emits_records [OF fs g]]
    emits_scan_policy [OF emits_events [OF cap_findings_ok [OF fs]]]
  show ?thesis unfolding finish_cycle_def UpdateStatus_metric_def split_beta
    by (intro emits_bind emits_return emits_let emits_now emits_setCondition emits_updatePhase parts)
      simp_all
qed

lemma emits_scan:
  assumes rc: "same_kube rc rc'" and g: "given_config env g" and st: "carried policy st"
  shows "emits (policy_call env rc policy) (scan env rc' tel policy st g)"
proof -
  have fin: "emits (policy_call env rc policy) (do {
      r \<leftarrow> finish_cycle env tel policy st2 g fs n k d; State_Monad.return (r, rc2) })"
    if "list_all (reported env policy) fs \<and> (\<not> collects_logs rc policy \<longrightarrow> fs = [])" for fs st2 n k d and rc2 :: reconciler
    using that by (intro emits_bind emits_finish_cycle [OF _ g] emits_return) (simp add: cycle_findings_ok_def)
  have diag: "emits (policy_call env rc policy) (do {
      findings \<leftarrow> run_diagnostics env policy g fs n d;
      r \<leftarrow> finish_cycle env tel policy st2 g findings n k d; State_Monad.return (r, rc2) })"
    if "list_all (reported env policy) fs \<and> (\<not> collects_logs rc policy \<longrightarrow> fs = [])" for fs st2 n k d and rc2 :: reconciler
    by (rule emits_bind_yields [OF emits_scan_policy [OF emits_run_diagnostics [OF g]]
        run_diagnostics_value]) (simp add: fin [OF that])
  have logs: "emits (policy_call env rc policy) (do {
      logFindings \<leftarrow> runLogCollection env (px_reconciler px) tel policy g (px_triggers px);
      scanEnd \<leftarrow> now_io env;
      findings \<leftarrow> run_diagnostics env policy g (px_findings px @ logFindings) n (scanEnd - t);
      r \<leftarrow> finish_cycle env tel policy st2 g findings n k (scanEnd - t);
      State_Monad.return (r, px_reconciler px) })"
    if px: "prom_run_ok policy px \<and> same_kube rc' (px_reconciler px)" for px n k t st2
  proof -
    have kube: "same_kube rc (px_reconciler px)" using rc px by (simp add: same_kube_def)
    have eqs: "px_triggers px = []" "px_findings px = []" using px by (simp_all add: prom_run_ok_def)
    show ?thesis unfolding eqs append_Nil
      by (rule emits_bind_yields [OF emits_scan_policy [OF emits_runLogCollection [OF kube g]]
          yields_runLogCollection]) (intro emits_bind emits_now diag; simp add: same_kube_logs [OF kube])
  qed
  have prom: "emits (policy_call env rc policy) (runPrometheusChecks env rc' (policy\<lparr>po_Status := st1\<rparr>) g)" for st1
    by (rule emits_scan_policy [OF emits_runPrometheusChecks [OF _ g]]) simp
  show ?thesis
    unfolding scan_def runOCPClusterChecks_eq Let_def prod.case
    by (rule emits_bind [OF emits_now], simp,
        rule emits_bind_yields [OF emits_runBuiltInChecks yields_runBuiltInChecks], simp, simp,
        rule emits_bind_yields [OF emits_ocp_condition yields_ocp_condition [OF st]], simp,
        rule emits_bind_yields [OF prom yields_prom_reconciler])
      (simp, blast intro: logs)
qed

lemma emits_active_cycle:
  "emits (policy_call env rc policy) (active_cycle env rc tel policy)"
  unfolding active_cycle_def
proof (rule emits_do_call_query)
  fix h
  let ?g = "case en_get_global env h globalConfigName of Inl e \<Rightarrow> None | Inr gc \<Rightarrow> Some gc"
  have g: "given_config env ?g" by (auto simp: given_config_def config_read_def split: sum.splits)
  show "emits (policy_call env rc policy) (do {
     let globalConfig = ?g;
     ot \<leftarrow> refresh_otel env rc globalConfig (po_Status policy);
     let tel' = (case rc_Telemetry (fst ot) of None \<Rightarrow> tel | Some p \<Rightarrow> p);
     s \<leftarrow> scan env (fst ot) tel' policy (snd ot) globalConfig;
     State_Monad.return (Returned (fst (fst s)) (snd (fst s)), snd s) })"
    unfolding Let_def
    by (rule emits_bind_yields [OF emits_scan_policy [OF emits_refresh_otel [OF g]]
        refresh_otel_keeps [OF carried_refl [of policy]]])
      (intro emits_bind emits_scan [OF _ g] emits_return; simp)
qed simp

text \<open>What \<open>Reconcile\<close> does once the policy has been read.\<close>

definition after_get :: "env \<Rightarrow> reconciler \<Rightarrow> sre_policy \<Rightarrow> (outcome \<times> reconciler) io" where
  "after_get env rc policy =
     (if po_DeletionTimestamp policy \<noteq> None then do {
        r \<leftarrow> handleDeletion env policy;
        State_Monad.return (Returned (fst r) (snd r), rc) }
      else if \<not> containsString (po_Finalizers policy) finalizerName then do {
        e \<leftarrow> update_policy env
          (policy\<lparr>po_Finalizers := po_Finalizers policy @ [finalizerName]\<rparr>);
        State_Monad.return
          (case e of
             Some er \<Rightarrow> (Returned no_result (Some (''add finalizer: '' @ api_error_msg er)), rc)
           | None \<Rightarrow> (Returned (no_result\<lparr>cl_Requeue := True\<rparr>) None, rc)) }
      else if sp_Paused (po_Spec policy) then do {
        r \<leftarrow> updatePhase env policy ''Paused'' None;
        State_Monad.return (Returned (fst r) (snd r), rc) }
      else (case rc_Telemetry rc of
          None \<Rightarrow> State_Monad.return (Panicked, rc)
        | Some tel \<Rightarrow> active_cycle env rc tel policy))"

lemma Reconcile_found:
  "en_get_policy env h ns name = Inr policy \<Longrightarrow>
     run_state (Reconcile env rc ns name) h =
     run_state (after_get env rc policy) (h @ [GetPolicy ns name])"
  by (simp add: Reconcile_def after_get_def)

lemma Reconcile_missing:
  "en_get_policy env h ns name = Inl e \<Longrightarrow>
     run_state (Reconcile env rc ns name) h =
     ((Returned no_result (if is_not_found e then None
        else Some (''get SREPolicy: '' @ api_error_msg e)), rc), h @ [GetPolicy ns name])"
  by (simp add: Reconcile_def)

lemma emits_handleDeletion: "emits (policy_call env rc policy) (handleDeletion env policy)"
  unfolding handleDeletion_def update_policy_def
  by (intro emits_if emits_bind emits_do_call emits_return) (simp add: removeString_filter)

lemma emits_after_get: "emits (policy_call env rc policy) (after_get env rc policy)"
  unfolding after_get_def update_policy_def
  by (intro emits_if emits_bind emits_handleDeletion emits_return emits_do_call emits_updatePhase
      emits_case_option emits_active_cycle) (simp_all add: removeString_filter)

section \<open>A sample policy\<close>

definition empty_status :: sre_policy_status where
  "empty_status =
     \<lparr>st_Findings = [], st_ActiveWorkflows = [], st_LastScanTime = None, st_NextScanTime = None,
      st_TotalChecks = 0, st_RemediationsApplied = 0, st_ObservedGeneration = 0,
      st_HealthyCount = 0, st_DegradedCount = 0, st_FailedCount = 0, st_Phase = [],
      st_Conditions = [], st_OCPClusterHealthy = None, st_FiringAlertCount = 0,
      st_FiringAlertNames = [], st_ObservabilityEndpointReachable = None\<rparr>"

definition sample_policy :: sre_policy where
  "sample_policy =
     \<lparr>po_Name = ''vms'', po_Namespace = ''sre'', po_Finalizers = [finalizerName],
      po_DeletionTimestamp = None, po_Generation = 3,
      po_Spec = \<lparr>sp_TargetNamespaces = [''vms''], sp_Checks = [sample_check 45], sp_Paused = False,
        sp_OCPCluster = None, sp_Prometheus = None, sp_LogCollection = Some sample_log_spec,
        sp_Notifications = None\<rparr>,
      po_Status = empty_status\<rparr>"

definition policy_env :: "sre_policy \<Rightarrow> env" where
  "policy_env p = silent_env\<lparr>en_get_policy := (\<lambda>h ns n. Inr p)\<rparr>"

lemma get_policy_env [simp]: "en_get_policy (policy_env p) h ns n = Inr p"
  by (simp add: policy_env_def)

definition running_reconciler :: reconciler where
  "running_reconciler =
     \<lparr>rc_Telemetry = Some \<lparr>te_tracer = DummyTracer, te_logger = None\<rparr>, rc_KubeClient = True,
      rc_promClient = None, rc_lastPromConfig = [], rc_lastOTelEndpoint = []\<rparr>"

section \<open>Properties\<close>



text \<open>
  C17. The rotation. When more ConfigMaps than the limit are listed and the sort is one by age,
  it deletes exactly the surplus: as many as there are too many, each of them at least as old
  as every one it keeps; the rest of the list is left alone, whether or not deletions fail.
  Within the limit, or when the list fails, it deletes nothing.
\<close>
theorem rotateConfigMaps_correct:
  assumes sort: "\<And>xs. mset (en_sort_config_maps env xs) = mset xs \<and>
      sorted (map cm_CreationTimestamp (en_sort_config_maps env xs))"
    and run: "run_state (rotateConfigMaps env policy selector n) h = (u, h')"
    and list: "en_list_config_maps env h (po_Namespace policy) (rotation_labels selector) = Inr items"
    and n: "0 < n"
  shows "\<exists>deleted kept. h' = h @ ListConfigMaps (po_Namespace policy) (rotation_labels selector) #
      map DeleteConfigMap deleted \<and>
    mset items = mset deleted + mset kept \<and>
    int (length kept) = min n (int (length items)) \<and>
    (\<forall>d \<in> set deleted. \<forall>k \<in> set kept. cm_CreationTimestamp d \<le> cm_CreationTimestamp k)"
proof (cases "int (length items) \<le> n")
  case True
  with run list show ?thesis
    by (intro exI [of _ "[]"] exI [of _ items]) (simp add: rotateConfigMaps_def)
next
  case False
  let ?s = "en_sort_config_maps env items" and ?k = "nat (int (length items) - n)"
  have del: "run_state (delete_config_maps env cms) g = ((), g @ map DeleteConfigMap cms)" for cms g
    unfolding delete_config_maps_def by (induction cms arbitrary: g) simp_all
  have "length ?s = length items" using sort by (metis mset_eq_length)
  moreover have "mset (take ?k ?s) + mset (drop ?k ?s) = mset items"
    using sort [of items] by (metis append_take_drop_id mset_append)
  moreover have "sorted (map cm_CreationTimestamp (take ?k ?s @ drop ?k ?s))"
    using sort [of items] by simp
  ultimately show ?thesis using False run list n
    by (intro exI [of _ "take ?k ?s"] exI [of _ "drop ?k ?s"])
      (auto simp: rotateConfigMaps_def del sorted_append simp del: append_take_drop_id)
qed

definition old_map :: "string \<Rightarrow> time \<Rightarrow> config_map" where
  "old_map n t = \<lparr>cm_Name = n, cm_GenerateName = [], cm_Namespace = ''sre'', cm_Labels = [],
     cm_Data = [], cm_CreationTimestamp = t\<rparr>"

definition rotation_env :: env where
  "rotation_env = silent_env\<lparr>en_list_config_maps :=
     (\<lambda>h ns sel. Inr [old_map ''b'' 20, old_map ''a'' 10, old_map ''c'' 30])\<rparr>"

lemma rotation_env_sorts: "mset (en_sort_config_maps rotation_env xs) = mset xs \<and>
    sorted (map cm_CreationTimestamp (en_sort_config_maps rotation_env xs))"
  by (simp add: rotation_env_def silent_env_def)

theorem rotateConfigMaps_correct_witness:
  "\<exists>deleted. snd (run_state (rotateConfigMaps rotation_env sample_policy
      ''sre.kubevirt.io/component=diagnostics'' 2) []) =
    ListConfigMaps ''sre'' [(''sre.kubevirt.io/component'', ''diagnostics'')] #
      map DeleteConfigMap deleted \<and> length deleted = 1"
proof -
  have list: "en_list_config_maps rotation_env [] (po_Namespace sample_policy)
      (rotation_labels ''sre.kubevirt.io/component=diagnostics'') =
    Inr [old_map ''b'' 20, old_map ''a'' 10, old_map ''c'' 30]"
    by (simp add: rotation_env_def)
  from rotateConfigMaps_correct [OF rotation_env_sorts prod.collapse [symmetric] list, of 2]
  obtain deleted kept where d: "snd (run_state (rotateConfigMaps rotation_env sample_policy
      ''sre.kubevirt.io/component=diagnostics'' 2) []) =
      [] @ ListConfigMaps (po_Namespace sample_policy)
        (rotation_labels ''sre.kubevirt.io/component=diagnostics'') # map DeleteConfigMap deleted"
    "mset [old_map ''b'' 20, old_map ''a'' 10, old_map ''c'' 30] = mset deleted + mset kept"
    "int (length kept) = 2"
    by fastforce
  have "3 = length deleted + length kept"
    using arg_cong [OF d(2), of size] by simp
  with d show ?thesis
    unfolding rotation_labels_eval by (intro exI [of _ deleted]) (simp add: sample_policy_def)
qed

end
