(* ===== verification/Reconcile_Cycle.thy ===== *)
theory Reconcile_Cycle
  imports Reconcile_Safety
begin

text \<open>
  What a reconcile cycle computes: the status it writes and the requeue it asks for, the
  short paths of deletion, finalizer and pause, the accounting of remediations, the refresh of
  the telemetry provider, and the reuse of the Prometheus client as an invariant of the
  reconciler over any sequence of cycles.
\<close>

section \<open>The status written at the end\<close>

text \<open>What a cycle with these findings, ended at this time, must write for a policy.\<close>

definition cycle_report :: "sre_policy \<Rightarrow> check_result list \<Rightarrow> time \<Rightarrow> sre_policy \<Rightarrow> bool" where
  "cycle_report policy findings now p \<longleftrightarrow>
     p\<lparr>po_Status := po_Status policy\<rparr> = policy \<and>
     st_Findings (po_Status p) = snd (cap_findings findings) \<and>
     st_TotalChecks (po_Status p) = to_int32 (length findings) \<and>
     st_ObservedGeneration (po_Status p) = po_Generation policy \<and>
     (let all = fst (cap_findings findings)
      in st_HealthyCount (po_Status p) = to_int32 (resources_with ''Healthy'' all) \<and>
         st_DegradedCount (po_Status p) = to_int32 (resources_with ''Degraded'' all) \<and>
         st_FailedCount (po_Status p) = to_int32 (resources_with ''Failed'' all) \<and>
         st_Phase (po_Status p) = (if 0 < resources_with ''Failed'' all then ''Degraded'' else ''Active'')) \<and>
     st_LastScanTime (po_Status p) = Some now \<and>
     st_NextScanTime (po_Status p) =
       Some (now + sint (minimumInterval (sp_Checks (po_Spec policy))) * second) \<and>
     fst (get_condition (st_Conditions (po_Status p)) conditionTypeReady) = ConditionTrue \<and>
     carried policy (po_Status p) \<and> st_RemediationsApplied (po_Status p) = 0 \<and>
     st_FiringAlertCount (po_Status p) = 0 \<and> st_FiringAlertNames (po_Status p) = []"

definition cycle_result :: "sre_policy \<Rightarrow> api_error option \<Rightarrow> ctrl_result \<times> err option" where
  "cycle_result policy e =
     (\<lparr>cl_Requeue = False,
       cl_RequeueAfter = sint (minimumInterval (sp_Checks (po_Spec policy))) * second\<rparr>,
      map_option (\<lambda>er. ''update status: '' @ api_error_msg er) e)"

definition ends_reporting :: "env \<Rightarrow> sre_policy \<Rightarrow> check_result list \<Rightarrow> time \<Rightarrow> history \<Rightarrow> api_call
    \<Rightarrow> ctrl_result \<times> err option \<Rightarrow> bool" where
  "ends_reporting env policy findings now h c r \<longleftrightarrow>
     (\<exists>p. c = UpdateStatus p \<and> cycle_report policy findings now p \<and>
        r = cycle_result policy (en_update_status env h p))"

lemma setCondition_get:
  "get_condition (st_Conditions (setCondition now ty st r m s)) ty = (st, r, m, now)"
  by (simp add: setCondition_def get_set_condition)

text \<open>The status a scan hands to the end of the cycle: carried over, and without alerts.\<close>

definition quiet_status :: "sre_policy \<Rightarrow> sre_policy_status \<Rightarrow> bool" where
  "quiet_status policy st \<longleftrightarrow> carried policy st \<and> st_FiringAlertCount st = 0 \<and>
     st_FiringAlertNames st = []"

lemma final_report:
  assumes quiet: "quiet_status policy status"
    and c_def: "c = cap_findings findings"
    and st_def: "st = setCondition t conditionTypeReady ConditionTrue reason m
      (final_status policy status (fst c) (snd c) 0 now)"
  shows "cycle_report policy findings now
    (policy\<lparr>po_Status := st\<lparr>st_Phase := cycle_phase (fst c)\<rparr>\<rparr>)"
proof -
  have len: "length (fst c) = length findings"
    unfolding c_def cap_findings_def sortFindingsByPriority_def
    by (simp add: insertion_sort_sort_key)
  have fields: "final_status policy status (fst c) (snd c) 0 now = status\<lparr>
      st_Findings := snd c, st_LastScanTime := Some now,
      st_NextScanTime := Some (now + sint (minimumInterval (sp_Checks (po_Spec policy))) * second),
      st_TotalChecks := to_int32 (length findings), st_RemediationsApplied := 0,
      st_ObservedGeneration := po_Generation policy,
      st_HealthyCount := to_int32 (resources_with ''Healthy'' (fst c)),
      st_DegradedCount := to_int32 (resources_with ''Degraded'' (fst c)),
      st_FailedCount := to_int32 (resources_with ''Failed'' (fst c))\<rparr>"
    by (simp add: final_status_def Let_def countBySeverity_eq len to_int32_def)
  have "get_condition (st_Conditions st) conditionTypeReady = (ConditionTrue, reason, m, t)"
    unfolding st_def by (rule setCondition_get)
  moreover have "carried policy (st\<lparr>st_Phase := cycle_phase (fst c)\<rparr>)"
  proof (rule carried_cong)
    show "carried policy st" unfolding st_def fields using quiet
      by (intro carried_setCondition)
        (auto simp: quiet_status_def operator_conditions_def elim!: carried_cong)
  qed simp_all
  moreover have "st_FiringAlertCount status = 0" "st_FiringAlertNames status = []"
    using quiet by (simp_all add: quiet_status_def)
  ultimately show ?thesis
    unfolding cycle_report_def c_def [symmetric]
    by (simp add: cycle_phase_def countBySeverity_eq Let_def)
      (simp add: st_def setCondition_def fields)
qed

lemma finish_cycle_ends:
  assumes quiet: "quiet_status policy status" and fs: "cycle_findings_ok env rc policy findings"
    and g: "given_config env g"
  shows "ends_at (scan_call env rc policy)
     (\<lambda>h c r. \<exists>now. clock_between env h0 h now \<and> ends_reporting env policy findings now h c r)
     (finish_cycle env tel policy status g findings 0 k d) h0"
proof -
  let ?all = "fst (cap_findings findings)" and ?st = "snd (cap_findings findings)"
  let ?Q = "\<lambda>h c r. \<exists>now. clock_between env h0 h now \<and> ends_reporting env policy findings now h c r"
  have last: "ends_at (scan_call env rc policy) ?Q
     (do { r \<leftarrow> updatePhase env (policy\<lparr>po_Status := st2\<rparr>) (cycle_phase ?all) None;
           State_Monad.return
             ((fst r)\<lparr>cl_RequeueAfter := sint (minimumInterval (sp_Checks (po_Spec policy))) * second\<rparr>,
              snd r) }) h4"
    if clock: "clock_between env h0 h4 now" and st2: "\<exists>t m. st2 = setCondition t conditionTypeReady
      ConditionTrue ''CheckCycleComplete'' m (final_status policy status ?all ?st 0 now)" for st2 now h4
  proof (rule ends_at_return)
    let ?p = "policy\<lparr>po_Status := st2\<lparr>st_Phase := cycle_phase ?all\<rparr>\<rparr>"
    have rep: "cycle_report policy findings now ?p" using st2 final_report [OF quiet refl] by blast
    show "ends_at (scan_call env rc policy) (\<lambda>h c x. ?Q h c
        ((fst x)\<lparr>cl_RequeueAfter := sint (minimumInterval (sp_Checks (po_Spec policy))) * second\<rparr>, snd x))
      (updatePhase env (policy\<lparr>po_Status := st2\<rparr>) (cycle_phase ?all) None) h4"
      unfolding ends_at_def
      by (intro exI [of _ "[]"] exI [of _ "UpdateStatus ?p"] conjI exI [of _ now])
        (use clock rep in \<open>auto simp: run_updatePhase Let_def ends_reporting_def cycle_result_def
          no_result_def split: option.split\<close>)
  qed
  show ?thesis
    unfolding finish_cycle_def split_beta Let_def UpdateStatus_metric_def bind_left_identity
    by (rule ends_at_bind [OF emits_records [OF fs g]],
        rule ends_at_bind [OF emits_now], simp,
        rule ends_at_bind [OF emits_setCondition], simp,
        rule ends_at_bind [OF emits_events [OF cap_findings_ok [OF fs]]], rule last,
        erule clock_between_now, assumption, rule prefix_order.trans, assumption, assumption)
      (auto simp: setCondition_io_def now_io_def)
qed

text \<open>
  The findings of a cycle and the time it writes, from the calls between two points of its
  history. When the policy collects logs, the findings are those of what \<open>Collect\<close> returned, one
  per container and line prefix and one per error, stamped with the clock; otherwise there are none.
  The time is a reading of the clock after that.
\<close>

definition cycle_scan :: "env \<Rightarrow> reconciler \<Rightarrow> sre_policy \<Rightarrow> history \<Rightarrow> history
    \<Rightarrow> check_result list \<Rightarrow> time \<Rightarrow> bool" where
  "cycle_scan env rc policy g h findings now \<longleftrightarrow>
     (if collects_logs rc policy
      then (\<exists>spec lc h1 h2 h3. sp_LogCollection (po_Spec policy) = Some spec \<and> prefix g h1 \<and>
        run_state (Collect env spec (sp_TargetNamespaces (po_Spec policy))) h1 = (Inr lc, h2) \<and>
        prefix h2 h3 \<and> findings = log_findings (en_now env h3) lc \<and>
        clock_between env (h3 @ [ReadClock]) h now)
      else findings = [] \<and> clock_between env g h now)"

definition scan_reports :: "env \<Rightarrow> reconciler \<Rightarrow> sre_policy \<Rightarrow> history \<Rightarrow> history \<Rightarrow> api_call
    \<Rightarrow> ctrl_result \<times> err option \<Rightarrow> bool" where
  "scan_reports env rc policy g h c r \<longleftrightarrow>
     (\<exists>findings now. cycle_scan env rc policy g h findings now \<and>
        ends_reporting env policy findings now h c r)"

lemma cycle_scan_kind: "cycle_scan env rc policy g h findings now \<Longrightarrow> list_all log_finding findings"
  by (auto simp: cycle_scan_def list_all_iff log_findings_kind split: if_splits)

lemma cycle_scan_prefix:
  "cycle_scan env rc policy g h findings now \<Longrightarrow> prefix g' g \<Longrightarrow> cycle_scan env rc policy g' h findings now"
  unfolding cycle_scan_def
  by (cases "collects_logs rc policy"; simp only: if_True if_False)
    (blast intro: prefix_order.trans, blast intro: clock_between_mono)

lemma scan_reports_prefix:
  "scan_reports env rc policy g h c r \<Longrightarrow> prefix g' g \<Longrightarrow> scan_reports env rc policy g' h c r"
  unfolding scan_reports_def by (blast intro: cycle_scan_prefix)

text \<open>The log collection of a cycle: a collection, and then its findings at the clock.\<close>

lemma run_runLogCollection:
  assumes run: "run_state (runLogCollection env rc' tel policy g []) h = (fs, h')"
    and g: "given_config env g" and rc: "same_kube rc rc'" and on: "collects_logs rc policy"
  shows "\<exists>spec lc h2 h3. sp_LogCollection (po_Spec policy) = Some spec \<and>
    run_state (Collect env spec (sp_TargetNamespaces (po_Spec policy))) h = (Inr lc, h2) \<and>
    prefix h2 h3 \<and> fs = log_findings (en_now env h3) lc \<and> h' = h3 @ [ReadClock]"
proof -
  have "collects_logs rc' policy" using on same_kube_logs [OF rc] by simp
  then obtain spec where spec: "sp_LogCollection (po_Spec policy) = Some spec" "lc_Enabled spec"
    "rc_KubeClient rc'" "\<not> lc_OnAlertOnly spec"
    by (auto simp: collects_logs_def split: option.splits)
  obtain lc h2 where coll:
    "run_state (Collect env spec (sp_TargetNamespaces (po_Spec policy))) h = (Inr lc, h2)"
    using Collect_value by blast
  let ?cm = "log_config_map policy lc (FormatReport lc)"
  let ?mid = "do { createErr \<leftarrow> do_call (CreateConfigMap ?cm) (\<lambda>h. en_create_config_map env h ?cm);
      _ \<leftarrow> (case createErr of
             Some e \<Rightarrow> State_Monad.return ()
           | None \<Rightarrow> rotate_if_configured env policy g ''sre.kubevirt.io/component=log-diagnostics'');
      (if logs_enabled g then LogSummary env tel (FormatReport lc) else State_Monad.return ()) }"
  have "emits (\<lambda>_. True) ?mid"
    by (intro emits_bind emits_do_call emits_case_option emits_if emits_return
        emits_mono [OF emits_LogSummary] emits_mono [OF emits_rotate_if_configured [OF g], of rc])
      (simp_all add: on)
  then have mid: "prefix h2 (snd (run_state ?mid h2))" by (rule emits_prefix) (rule prod.collapse [symmetric])
  have "run_state (runLogCollection env rc' tel policy g []) h =
      run_state (ToCheckResults env lc ''log-collection'') (snd (run_state ?mid h2))"
    using spec coll by (simp add: runLogCollection_def collect_and_store_def Let_def split_beta)
  with run spec(1) coll mid show ?thesis by (auto simp: run_ToCheckResults)
qed

lemma scan_tail_ends:
  assumes px: "prom_run_ok policy px" "same_kube rc (px_reconciler px)" and st: "quiet_status policy st"
    and g: "given_config env g"
  shows "ends_at (scan_call env rc policy) (\<lambda>h c r. scan_reports env rc policy h0 h c (fst r))
     (do { logFindings \<leftarrow> runLogCollection env (px_reconciler px) tel policy g (px_triggers px);
           scanEnd \<leftarrow> now_io env;
           findings \<leftarrow> run_diagnostics env policy g (px_findings px @ logFindings) 0 (scanEnd - t);
           r \<leftarrow> finish_cycle env tel policy st g findings 0 k (scanEnd - t);
           State_Monad.return (r, px_reconciler px) }) h0"
proof -
  have eqs: "px_triggers px = []" "px_findings px = []" using px(1) by (simp_all add: prom_run_ok_def)
  show ?thesis unfolding eqs append_Nil
  proof (rule ends_at_bind [OF emits_runLogCollection [OF px(2) g]])
    fix fs h1 assume run: "run_state (runLogCollection env (px_reconciler px) tel policy g []) h0 = (fs, h1)"
      and h1: "prefix h0 h1"
    have fs: "cycle_findings_ok env rc policy fs"
      using yieldsD [OF yields_runLogCollection run] same_kube_logs [OF px(2)]
      by (simp add: cycle_findings_ok_def)
    have scan: "cycle_scan env rc policy h0 h fs now" if "clock_between env h1 h now" for h now
    proof (cases "collects_logs rc policy")
      case True
      from run_runLogCollection [OF run g px(2) True] that True show ?thesis
        unfolding cycle_scan_def by (metis prefix_order.refl)
    next
      case False
      with fs that show ?thesis
        by (auto simp: cycle_scan_def cycle_findings_ok_def intro: clock_between_mono [OF _ h1])
    qed
    have fin: "ends_at (scan_call env rc policy) (\<lambda>h c r. scan_reports env rc policy h0 h c (fst r))
        (do { r \<leftarrow> finish_cycle env tel policy st g fs 0 k d; State_Monad.return (r, px_reconciler px) }) h3"
      if "prefix h1 h3" for d h3
    proof (rule ends_at_return, rule ends_at_mono [OF finish_cycle_ends [OF st fs g]])
      fix h c r assume "\<exists>now. clock_between env h3 h now \<and> ends_reporting env policy fs now h c r"
      then obtain now where now: "clock_between env h3 h now" "ends_reporting env policy fs now h c r" by blast
      from clock_between_mono [OF now(1) that prefix_order.refl] have "cycle_scan env rc policy h0 h fs now"
        by (rule scan)
      with now(2) show "scan_reports env rc policy h0 h c (fst (r, px_reconciler px))"
        unfolding scan_reports_def by auto
    qed
    show "ends_at (scan_call env rc policy) (\<lambda>h c r. scan_reports env rc policy h0 h c (fst r))
        (do { scanEnd \<leftarrow> now_io env;
           findings \<leftarrow> run_diagnostics env policy g fs 0 (scanEnd - t);
           r \<leftarrow> finish_cycle env tel policy st g findings 0 k (scanEnd - t);
           State_Monad.return (r, px_reconciler px) }) h1"
    proof (rule ends_at_bind [OF emits_now])
      fix e h2 assume h2: "prefix h1 h2"
      show "ends_at (scan_call env rc policy) (\<lambda>h c r. scan_reports env rc policy h0 h c (fst r))
        (do { findings \<leftarrow> run_diagnostics env policy g fs 0 (e - t);
           r \<leftarrow> finish_cycle env tel policy st g findings 0 k (e - t);
           State_Monad.return (r, px_reconciler px) }) h2"
      proof (rule ends_at_bind [OF emits_run_diagnostics [OF g]])
        fix fs' h3 assume "run_state (run_diagnostics env policy g fs 0 (e - t)) h2 = (fs', h3)"
          and h3: "prefix h2 h3"
        then have "fs' = fs" using yieldsD [OF run_diagnostics_value] by blast
        with fin [OF prefix_order.trans [OF h2 h3]] show "ends_at (scan_call env rc policy)
            (\<lambda>h c r. scan_reports env rc policy h0 h c (fst r))
            (do { r \<leftarrow> finish_cycle env tel policy st g fs' 0 k (e - t);
               State_Monad.return (r, px_reconciler px) }) h3" by simp
      qed
    qed simp
  qed
qed

lemma scan_ends:
  assumes st: "carried policy status" and rc: "same_kube rc rc'" and g: "given_config env g"
  shows "ends_at (scan_call env rc policy) (\<lambda>h c r. scan_reports env rc policy h0 h c (fst r))
     (scan env rc' tel policy status g) h0"
proof -
  have prom: "ends_at (scan_call env rc policy) (\<lambda>h c r. scan_reports env rc policy h0 h c (fst r))
      (do { px \<leftarrow> runPrometheusChecks env rc' (policy\<lparr>po_Status := st1\<rparr>) g;
           logFindings \<leftarrow> runLogCollection env (px_reconciler px) tel policy g (px_triggers px);
           scanEnd \<leftarrow> now_io env;
           findings \<leftarrow> run_diagnostics env policy g (px_findings px @ logFindings)
             (length (filter counted_dispatch (px_dispatches px))) (scanEnd - t);
           r \<leftarrow> finish_cycle env tel policy ((px_status px)\<lparr>
               st_FiringAlertCount := to_int32 (length (px_triggers px)),
               st_FiringAlertNames := map tr_AlertName (px_triggers px)\<rparr>) g findings
             (length (filter counted_dispatch (px_dispatches px))) (length (px_triggers px))
             (scanEnd - t);
           State_Monad.return (r, px_reconciler px) }) h1"
    if st1: "carried policy st1" and h1: "prefix h0 h1" for st1 t h1
  proof (rule ends_at_bind [OF emits_runPrometheusChecks [OF _ g]])
    fix px h2 assume "run_state (runPrometheusChecks env rc' (policy\<lparr>po_Status := st1\<rparr>) g) h1 = (px, h2)"
      and h2: "prefix h1 h2"
    then have px: "prom_run_ok policy px" "same_kube rc (px_reconciler px)"
      using yieldsD [OF yields_prom_reconciler [of policy "policy\<lparr>po_Status := st1\<rparr>" rc' env g]] st1 rc
      by (auto simp: same_kube_def)
    then have eqs: "px_dispatches px = []" "px_triggers px = []" by (simp_all add: prom_run_ok_def)
    have quiet: "quiet_status policy ((px_status px)\<lparr>
        st_FiringAlertCount := to_int32 (length (px_triggers px)),
        st_FiringAlertNames := map tr_AlertName (px_triggers px)\<rparr>)"
      using px by (auto simp: quiet_status_def eqs to_int32_def prom_run_ok_def elim!: carried_cong)
    note tail = ends_at_mono [OF scan_tail_ends [OF px quiet g],
        OF scan_reports_prefix [OF _ prefix_order.trans [OF h1 h2]]]
    show "ends_at (scan_call env rc policy) (\<lambda>h c r. scan_reports env rc policy h0 h c (fst r))
      (do { logFindings \<leftarrow> runLogCollection env (px_reconciler px) tel policy g (px_triggers px);
           scanEnd \<leftarrow> now_io env;
           findings \<leftarrow> run_diagnostics env policy g (px_findings px @ logFindings)
             (length (filter counted_dispatch (px_dispatches px))) (scanEnd - t);
           r \<leftarrow> finish_cycle env tel policy ((px_status px)\<lparr>
               st_FiringAlertCount := to_int32 (length (px_triggers px)),
               st_FiringAlertNames := map tr_AlertName (px_triggers px)\<rparr>) g findings
             (length (filter counted_dispatch (px_dispatches px))) (length (px_triggers px))
             (scanEnd - t);
           State_Monad.return (r, px_reconciler px) }) h2"
      using tail by (simp add: eqs)
  qed simp
  show ?thesis
    unfolding scan_def runOCPClusterChecks_eq Let_def prod.case
  proof (rule ends_at_bind [OF emits_now], simp, rule ends_at_bind [OF emits_runBuiltInChecks], simp)
    fix t h1 b h2 assume h: "prefix h0 h1" "prefix h1 h2"
      and b: "run_state (runBuiltInChecks env policy (resolve_namespaces policy g)) h1 = (b, h2)"
    have none: "b = ([], 0, None)" using yieldsD [OF yields_runBuiltInChecks b] .
    show "ends_at (scan_call env rc policy) (\<lambda>h c r. scan_reports env rc policy h0 h c (fst r))
      (case b of
        (builtin, remCount, Some e) \<Rightarrow> do {
          r \<leftarrow> updatePhase env (policy\<lparr>po_Status := status\<rparr>) ''Error'' (Some e);
          State_Monad.return (r, rc') }
      | (builtin, remCount, None) \<Rightarrow> do {
          st1 \<leftarrow> ocp_condition env [] True status;
          px \<leftarrow> runPrometheusChecks env rc' (policy\<lparr>po_Status := st1\<rparr>) g;
          logFindings \<leftarrow> runLogCollection env (px_reconciler px) tel policy g (px_triggers px);
          scanEnd \<leftarrow> now_io env;
          findings \<leftarrow> run_diagnostics env policy g (builtin @ [] @ px_findings px @ logFindings)
            (remCount + length (filter counted_dispatch (px_dispatches px))) (scanEnd - t);
          r \<leftarrow> finish_cycle env tel policy ((px_status px)\<lparr>
              st_FiringAlertCount := to_int32 (length (px_triggers px)),
              st_FiringAlertNames := map tr_AlertName (px_triggers px)\<rparr>) g findings
            (remCount + length (filter counted_dispatch (px_dispatches px))) (length (px_triggers px))
            (scanEnd - t);
          State_Monad.return (r, px_reconciler px) }) h2"
      unfolding none prod.case option.case append_Nil add_0
      by (rule ends_at_bind [OF emits_ocp_condition], simp, rule prom)
        (use h in \<open>auto intro: prefix_order.trans dest: yieldsD [OF yields_ocp_condition [OF st]]\<close>)
  qed
qed

lemma active_cycle_ends:
  "ends_at (scan_call env rc policy)
     (\<lambda>h c r. \<exists>res e. fst r = Returned res e \<and> scan_reports env rc policy h0 h c (res, e))
     (active_cycle env rc tel policy) h0"
  unfolding active_cycle_def Let_def
proof (rule ends_at_bind [OF emits_do_call], simp, rule ends_at_bind [OF emits_refresh_otel])
  fix a h1 assume a: "run_state (do_call (GetGlobalConfig globalConfigName)
      (\<lambda>h. en_get_global env h globalConfigName)) h0 = (a, h1)" and h1: "prefix h0 h1"
  let ?g = "case a of Inl e \<Rightarrow> None | Inr gc \<Rightarrow> Some gc"
  show g: "given_config env ?g"
    using a by (auto simp: given_config_def config_read_def split: sum.splits)
  fix ot h2 assume ot: "run_state (refresh_otel env rc ?g (po_Status policy)) h1 = (ot, h2)"
    and h2: "prefix h1 h2"
  have keeps: "same_kube rc (fst ot)" "carried policy (snd ot)"
    using yieldsD [OF refresh_otel_keeps [OF carried_refl] ot] by simp_all
  note scan = ends_at_mono [OF scan_ends [OF keeps(2,1) g],
      OF scan_reports_prefix [OF _ prefix_order.trans [OF h1 h2]]]
  show "ends_at (scan_call env rc policy)
     (\<lambda>h c r. \<exists>res e. fst r = Returned res e \<and> scan_reports env rc policy h0 h c (res, e))
     (do { s \<leftarrow> scan env (fst ot) (case rc_Telemetry (fst ot) of None \<Rightarrow> tel | Some p \<Rightarrow> p) policy
             (snd ot) ?g;
           State_Monad.return (Returned (fst (fst s)) (snd (fst s)), snd s) }) h2"
    by (rule ends_at_return, rule ends_at_mono [OF scan]) auto
qed

section \<open>Reconcile, path by path\<close>

definition active_policy :: "sre_policy \<Rightarrow> bool" where
  "active_policy policy = (po_DeletionTimestamp policy = None \<and>
     finalizerName \<in> set (po_Finalizers policy) \<and> \<not> sp_Paused (po_Spec policy))"

lemma after_get_active:
  "active_policy policy \<Longrightarrow> after_get env rc policy =
     (case rc_Telemetry rc of None \<Rightarrow> State_Monad.return (Panicked, rc)
      | Some tel \<Rightarrow> active_cycle env rc tel policy)"
  by (simp add: after_get_def active_policy_def)

lemma reconcile_cycle_report:
  assumes "en_get_policy env h ns name = Inr policy" and "active_policy policy"
    and "rc_Telemetry rc = Some tel"
    and "run_state (Reconcile env rc ns name) h = ((out, rc'), h')"
  shows "\<exists>findings now p calls.
    h' = h @ GetPolicy ns name # calls @ [UpdateStatus p] \<and> list_all (scan_call env rc policy) calls \<and>
    cycle_scan env rc policy (h @ [GetPolicy ns name]) (h @ GetPolicy ns name # calls) findings now \<and>
    cycle_report policy findings now p \<and> length (st_Findings (po_Status p)) \<le> 500 \<and>
    list_all log_finding findings \<and> (\<not> collects_logs rc policy \<longrightarrow> findings = []) \<and>
    out = Returned
      \<lparr>cl_Requeue = False,
       cl_RequeueAfter = sint (minimumInterval (sp_Checks (po_Spec policy))) * second\<rparr>
      (map_option (\<lambda>e. ''update status: '' @ api_error_msg e)
        (en_update_status env (h @ GetPolicy ns name # calls) p))"
proof -
  have run: "run_state (active_cycle env rc tel policy) (h @ [GetPolicy ns name]) = ((out, rc'), h')"
    using assms by (simp add: Reconcile_found after_get_active)
  obtain calls c res e where
    calls: "h' = (h @ [GetPolicy ns name]) @ calls @ [c]" "list_all (scan_call env rc policy) calls"
    and out: "out = Returned res e"
    and rep: "scan_reports env rc policy (h @ [GetPolicy ns name]) ((h @ [GetPolicy ns name]) @ calls) c (res, e)"
    by (rule ends_atD [OF active_cycle_ends run]) auto
  from rep obtain findings now p where scan: "cycle_scan env rc policy (h @ [GetPolicy ns name])
      ((h @ [GetPolicy ns name]) @ calls) findings now"
    and "c = UpdateStatus p" "cycle_report policy findings now p"
    "(res, e) = cycle_result policy (en_update_status env ((h @ [GetPolicy ns name]) @ calls) p)"
    unfolding scan_reports_def ends_reporting_def by blast
  moreover have "\<not> collects_logs rc policy \<longrightarrow> findings = []" using scan by (simp add: cycle_scan_def)
  moreover have "length (snd (cap_findings findings)) \<le> 500"
    by (simp add: cap_findings_def maxStatusFindings_def)
  ultimately show ?thesis using calls out cycle_scan_kind [OF scan]
    by (intro exI [of _ findings] exI [of _ now] exI [of _ p] exI [of _ calls])
      (simp add: cycle_report_def cycle_result_def)
qed

text \<open>
  C7. The report of a cycle. For a policy that is active, a reconciler with telemetry ends its
  cycle by writing the status, once and as its only write to the policy. When the policy
  collects logs, the findings are exactly those of what the collection returned during the cycle:
  one per distinct container and beginning (80 bytes) of a line, in the order collected, then one
  per error; otherwise there are none. The status has those findings (the 500 most important when there are more), their
  number and that of the distinct resources per status, phase Degraded exactly when a resource
  counts as failed, the time read from the clock when the scan was over, and the next scan one requeue
  interval later; and the cycle asks for a requeue after that interval even when the write
  fails, whose error it returns. No remediation is ever applied, and no alert is ever reported.
\<close>
theorem reconcile_report:
  assumes "en_get_policy env h ns name = Inr policy" and "active_policy policy"
    and "rc_Telemetry rc = Some tel"
    and "run_state (Reconcile env rc ns name) h = ((out, rc'), h')"
  shows "\<exists>findings now p calls.
    h' = h @ GetPolicy ns name # calls @ [UpdateStatus p] \<and> list_all (scan_call env rc policy) calls \<and>
    cycle_scan env rc policy (h @ [GetPolicy ns name]) (h @ GetPolicy ns name # calls) findings now \<and>
    cycle_report policy findings now p \<and> length (st_Findings (po_Status p)) \<le> 500 \<and>
    list_all log_finding findings \<and> (\<not> collects_logs rc policy \<longrightarrow> findings = []) \<and>
    out = Returned
      \<lparr>cl_Requeue = False,
       cl_RequeueAfter = sint (minimumInterval (sp_Checks (po_Spec policy))) * second\<rparr>
      (map_option (\<lambda>e. ''update status: '' @ api_error_msg e)
        (en_update_status env (h @ GetPolicy ns name # calls) p))"
  by (rule reconcile_cycle_report [OF assms])

lemma sample_active: "active_policy sample_policy"
  by (simp add: active_policy_def sample_policy_def)

lemma running_telemetry:
  "rc_Telemetry running_reconciler = Some \<lparr>te_tracer = DummyTracer, te_logger = None\<rparr>"
  by (simp add: running_reconciler_def)

theorem reconcile_report_witness:
  "\<exists>res e. fst (fst (run_state (Reconcile (policy_env sample_policy) running_reconciler
      ''sre'' ''vms'') [])) = Returned res e \<and> cl_RequeueAfter res = 45 * second"
proof -
  obtain out rc' h' where run: "run_state (Reconcile (policy_env sample_policy) running_reconciler
      ''sre'' ''vms'') [] = ((out, rc'), h')" by (metis prod.collapse)
  have "sint (minimumInterval (sp_Checks (po_Spec sample_policy))) = 45"
    by (simp add: sample_policy_def minimumInterval_def sample_check_def)
  with reconcile_report [OF get_policy_env sample_active running_telemetry run] run
  show ?thesis by force
qed

lemma Reconcile_path:
  assumes "run_state (Reconcile env rc ns name) h = ((out, rc'), h')"
  shows "case en_get_policy env h ns name of
      Inl e \<Rightarrow> rc' = rc \<and> h' = h @ [GetPolicy ns name] \<and>
        out = Returned no_result
          (if is_not_found e then None else Some (''get SREPolicy: '' @ api_error_msg e))
    | Inr policy \<Rightarrow>
        let released = policy\<lparr>po_Finalizers := filter (\<lambda>f. f \<noteq> finalizerName) (po_Finalizers policy)\<rparr>;
            adopted = policy\<lparr>po_Finalizers := po_Finalizers policy @ [finalizerName]\<rparr>;
            paused = policy\<lparr>po_Status := (po_Status policy)\<lparr>st_Phase := ''Paused''\<rparr>\<rparr>
        in (if po_DeletionTimestamp policy \<noteq> None then rc' = rc \<and>
             (if finalizerName \<in> set (po_Finalizers policy)
              then h' = h @ [GetPolicy ns name, UpdatePolicy released] \<and>
                out = Returned no_result
                  (map_option api_error_msg (en_update_policy env (h @ [GetPolicy ns name]) released))
              else h' = h @ [GetPolicy ns name] \<and> out = Returned no_result None)
            else if finalizerName \<notin> set (po_Finalizers policy) then rc' = rc \<and>
              h' = h @ [GetPolicy ns name, UpdatePolicy adopted] \<and>
              out = (case en_update_policy env (h @ [GetPolicy ns name]) adopted of
                  Some e \<Rightarrow> Returned no_result (Some (''add finalizer: '' @ api_error_msg e))
                | None \<Rightarrow> Returned \<lparr>cl_Requeue = True, cl_RequeueAfter = 0\<rparr> None)
            else sp_Paused (po_Spec policy) \<longrightarrow> rc' = rc \<and>
              h' = h @ [GetPolicy ns name, UpdateStatus paused] \<and>
              out = (case en_update_status env (h @ [GetPolicy ns name]) paused of
                  Some e \<Rightarrow> Returned no_result (Some (''update status: '' @ api_error_msg e))
                | None \<Rightarrow> Returned \<lparr>cl_Requeue = False, cl_RequeueAfter = 60 * second\<rparr> None))"
proof (cases "en_get_policy env h ns name")
  case (Inl e)
  with assms show ?thesis by (auto simp: Reconcile_missing)
next
  case (Inr policy)
  then have run: "run_state (after_get env rc policy) (h @ [GetPolicy ns name]) = ((out, rc'), h')"
    using assms by (simp add: Reconcile_found)
  show ?thesis unfolding Inr sum.case Let_def
  proof (cases "po_DeletionTimestamp policy = None"; cases "finalizerName \<in> set (po_Finalizers policy)")
  qed (use run in \<open>auto simp: after_get_def handleDeletion_def update_policy_def removeString_filter
      run_updatePhase Let_def no_result_def defaultRequeueAfter_def split: option.splits\<close>)
qed

text \<open>
  C19. The short paths, with their exact calls and results. A missing policy ends the cycle
  quietly and another read error is returned. A policy being deleted only loses this operator's
  finalizer, in one update whose error is returned, or is left alone when it does not carry it;
  neither asks for a requeue. A policy without the finalizer only gets it, in one update, and is
  requeued at once when the update succeeds; its error is returned with the prefix of the source
  when not. A paused policy only has its phase set and comes back after 60 seconds, or returns
  the error of the status update. None of them changes the reconciler.
\<close>
theorem reconcile_short_paths:
  assumes "run_state (Reconcile env rc ns name) h = ((out, rc'), h')"
  shows "case en_get_policy env h ns name of
      Inl e \<Rightarrow> rc' = rc \<and> h' = h @ [GetPolicy ns name] \<and>
        out = Returned no_result
          (if is_not_found e then None else Some (''get SREPolicy: '' @ api_error_msg e))
    | Inr policy \<Rightarrow>
        let released = policy\<lparr>po_Finalizers := filter (\<lambda>f. f \<noteq> finalizerName) (po_Finalizers policy)\<rparr>;
            adopted = policy\<lparr>po_Finalizers := po_Finalizers policy @ [finalizerName]\<rparr>;
            paused = policy\<lparr>po_Status := (po_Status policy)\<lparr>st_Phase := ''Paused''\<rparr>\<rparr>
        in (if po_DeletionTimestamp policy \<noteq> None then rc' = rc \<and>
             (if finalizerName \<in> set (po_Finalizers policy)
              then h' = h @ [GetPolicy ns name, UpdatePolicy released] \<and>
                out = Returned no_result
                  (map_option api_error_msg (en_update_policy env (h @ [GetPolicy ns name]) released))
              else h' = h @ [GetPolicy ns name] \<and> out = Returned no_result None)
            else if finalizerName \<notin> set (po_Finalizers policy) then rc' = rc \<and>
              h' = h @ [GetPolicy ns name, UpdatePolicy adopted] \<and>
              out = (case en_update_policy env (h @ [GetPolicy ns name]) adopted of
                  Some e \<Rightarrow> Returned no_result (Some (''add finalizer: '' @ api_error_msg e))
                | None \<Rightarrow> Returned \<lparr>cl_Requeue = True, cl_RequeueAfter = 0\<rparr> None)
            else sp_Paused (po_Spec policy) \<longrightarrow> rc' = rc \<and>
              h' = h @ [GetPolicy ns name, UpdateStatus paused] \<and>
              out = (case en_update_status env (h @ [GetPolicy ns name]) paused of
                  Some e \<Rightarrow> Returned no_result (Some (''update status: '' @ api_error_msg e))
                | None \<Rightarrow> Returned \<lparr>cl_Requeue = False, cl_RequeueAfter = 60 * second\<rparr> None))"
  by (rule Reconcile_path [OF assms])

theorem reconcile_short_paths_witness:
  "\<exists>rc'. run_state (Reconcile (policy_env (sample_policy\<lparr>po_DeletionTimestamp := Some 5\<rparr>))
      running_reconciler ''sre'' ''vms'') [] =
   ((Returned no_result None, rc'), [GetPolicy ''sre'' ''vms'',
    UpdatePolicy (sample_policy\<lparr>po_DeletionTimestamp := Some 5, po_Finalizers := []\<rparr>)])"
proof -
  let ?env = "policy_env (sample_policy\<lparr>po_DeletionTimestamp := Some 5\<rparr>)"
  obtain out rc' h' where run: "run_state (Reconcile ?env running_reconciler ''sre'' ''vms'') []
      = ((out, rc'), h')" by (metis prod.collapse)
  from reconcile_short_paths [OF run] run show ?thesis
    by (simp add: sample_policy_def policy_env_def silent_env_def)
qed

section \<open>Remediation accounting\<close>

text \<open>The findings \<open>runBuiltInChecks\<close> counts as remediated.\<close>

definition remediated :: "check_spec \<Rightarrow> check_result \<Rightarrow> bool" where
  "remediated spec f \<longleftrightarrow> cr_Status f \<noteq> ''Healthy'' \<and>
     cs_Remediation spec \<notin> {RemediationNone, RemediationAlert} \<and>
     \<not> has_workflow spec \<and> required_args (cs_Remediation spec) = []"

lemma remediate_finding_eq:
  "remediate_finding spec f n =
     (if remediated spec f
      then (f\<lparr>cr_RemediationApplied := cs_Remediation spec,
              cr_RemediationAttempts := cr_RemediationAttempts f + 1\<rparr>, n + 1)
      else (f, n))"
proof (cases "has_workflow spec")
  case True
  then show ?thesis by (simp add: remediate_finding_def Apply_workflow remediated_def)
next
  case False
  from Apply_action [OF this, of f] obtain e where
    "Apply f spec = (cs_Remediation spec, e)" "e = None \<longleftrightarrow> required_args (cs_Remediation spec) = []"
    by (metis prod.collapse)
  with False show ?thesis by (cases e) (auto simp: remediate_finding_def remediated_def)
qed


section \<open>Telemetry refresh\<close>

text \<open>
  C32. When observability is wanted at another endpoint than the last one, the provider is
  rebuilt: the exporters of the enabled signals are created at the new endpoint, in order, the
  reconciler's provider becomes the one built from their answers (a real tracer and a logger
  exactly when the signal is enabled and its exporter could be created) whatever it was before,
  the endpoint is remembered, nothing else of the reconciler changes, and the condition
  OTelHealthy becomes True whatever the exporters answered. From then on a cycle whose
  configuration names the same endpoint makes no call and changes nothing, whatever else
  changed in it.
\<close>
theorem refresh_otel_once:
  assumes "observability_wanted g = Some (gc, ob)" and "ob_OTelEndpoint ob \<noteq> rc_lastOTelEndpoint rc"
    and "run_state (refresh_otel env rc g st) h = ((rc', st'), h')"
    and "observability_wanted g2 = Some (gc2, ob2)" and "ob_OTelEndpoint ob2 = ob_OTelEndpoint ob"
  shows "h' = h @ exporter_calls ob @ [ReadClock] \<and>
    rc' = rc\<lparr>rc_Telemetry := Some (provider_for env ob h), rc_lastOTelEndpoint := ob_OTelEndpoint ob\<rparr> \<and>
    fst (get_condition (st_Conditions st') conditionTypeOTelHealthy) = ConditionTrue \<and>
    st_ObservabilityEndpointReachable st' = Some True \<and>
    run_state (refresh_otel env rc' g2 st2) h2 = ((rc', st2), h2)"
proof -
  have ob: "gs_Observability (gc_Spec gc) = Some ob"
    using assms(1) by (auto simp: observability_wanted_def split: option.splits if_splits)
  have eq: "rc' = rc\<lparr>rc_Telemetry := Some (provider_for env ob h), rc_lastOTelEndpoint := ob_OTelEndpoint ob\<rparr>"
    "h' = h @ exporter_calls ob @ [ReadClock]"
    "st' = (setCondition (en_now env (h @ exporter_calls ob)) conditionTypeOTelHealthy ConditionTrue
       ''ObservabilityConnected'' ''OTel endpoint reachable'' st)
         \<lparr>st_ObservabilityEndpointReachable := Some True\<rparr>"
    using assms(1,2,3)
    by (auto simp: refresh_otel_def reconcileOTel_def ob run_NewProvider setCondition_io_def now_io_def)
  have "get_condition (st_Conditions st') conditionTypeOTelHealthy =
      (ConditionTrue, ''ObservabilityConnected'', ''OTel endpoint reachable'',
       en_now env (h @ exporter_calls ob))"
    unfolding eq by (simp add: setCondition_def get_set_condition)
  then show ?thesis using assms(4,5) by (simp add: eq refresh_otel_def)
qed

definition sample_global :: "bool \<Rightarrow> sre_global_config" where
  "sample_global logs =
     \<lparr>gc_Name = globalConfigName,
      gc_Spec = \<lparr>gs_Observability = Some \<lparr>ob_TracingEnabled = True, ob_MetricsEnabled = False,
          ob_LogsEnabled = logs, ob_OTelEndpoint = ''otel:4317''\<rparr>,
        gs_Retention = None, gs_Defaults = None,
        gs_Prometheus = Some \<lparr>gp_PrometheusURL = ''https://p'', gp_AlertManagerURL = [],
          gp_InsecureSkipVerify = False, gp_BearerTokenSecretRef = None\<rparr>\<rparr>,
      gc_Status = \<lparr>gt_Phase = [], gt_Conditions = []\<rparr>\<rparr>"

lemma sample_global_wanted:
  "observability_wanted (Some (sample_global logs)) = Some (sample_global logs,
     \<lparr>ob_TracingEnabled = True, ob_MetricsEnabled = False, ob_LogsEnabled = logs,
      ob_OTelEndpoint = ''otel:4317''\<rparr>)"
  by (simp add: observability_wanted_def sample_global_def)

theorem refresh_otel_once_witness:
  "\<exists>rc' st' h'. run_state (refresh_otel silent_env running_reconciler
      (Some (sample_global False)) empty_status) [] = ((rc', st'), h') \<and>
    run_state (refresh_otel silent_env rc' (Some (sample_global True)) empty_status) [] =
      ((rc', empty_status), [])"
proof -
  obtain rc' st' h' where run: "run_state (refresh_otel silent_env running_reconciler
      (Some (sample_global False)) empty_status) [] = ((rc', st'), h')"
    by (metis prod.collapse)
  have "run_state (refresh_otel silent_env rc' (Some (sample_global True)) empty_status) [] =
      ((rc', empty_status), [])"
    by (rule refresh_otel_once [OF sample_global_wanted _ run sample_global_wanted, THEN conjunct2,
        THEN conjunct2, THEN conjunct2, THEN conjunct2]) (simp_all add: running_reconciler_def)
  with run show ?thesis by blast
qed

section \<open>The Prometheus client across cycles\<close>

text \<open>The client a configuration calls for, up to the token it holds.\<close>

definition client_for :: "global_prometheus_spec \<Rightarrow> prom_client \<Rightarrow> bool" where
  "client_for g c \<longleftrightarrow>
     pc_prometheusURL c =
       (if gp_PrometheusURL g = [] then DefaultPrometheusURL else gp_PrometheusURL g) \<and>
     pc_alertManagerURL c =
       (if gp_AlertManagerURL g = [] then DefaultAlertManagerURL else gp_AlertManagerURL g) \<and>
     pc_InsecureSkipVerify c = gp_InsecureSkipVerify g"

definition prom_inv :: "reconciler \<Rightarrow> bool" where
  "prom_inv rc \<longleftrightarrow>
     (case rc_promClient rc of
        None \<Rightarrow> True
      | Some c \<Rightarrow> \<exists>g. rc_lastPromConfig rc = promSpecKey g \<and> client_for g c)"

lemma prom_inv_None: "rc_promClient rc = None \<Longrightarrow> prom_inv rc"
  by (simp add: prom_inv_def)

lemma prom_inv_same:
  "prom_inv rc \<Longrightarrow> rc_promClient a = rc_promClient rc \<Longrightarrow>
     rc_lastPromConfig a = rc_lastPromConfig rc \<Longrightarrow> prom_inv a"
  by (simp add: prom_inv_def split: option.splits)

text \<open>The key determines the URLs and the TLS flag as long as no URL contains the separator.\<close>

definition plain_urls :: "global_prometheus_spec \<Rightarrow> bool" where
  "plain_urls g \<longleftrightarrow> CHR ''|'' \<notin> set (gp_PrometheusURL g) \<and> CHR ''|'' \<notin> set (gp_AlertManagerURL g)"

lemma bool_str_plain: "CHR ''|'' \<notin> set (bool_str b)" "bool_str b = bool_str b' \<longleftrightarrow> b = b'"
  by (simp_all add: bool_str_def)

lemma key_plain:
  assumes "promSpecKey g = promSpecKey g'" and "plain_urls g"
  shows "plain_urls g'"
proof -
  have count: "count_list (promSpecKey x) (CHR ''|'') =
      count_list (gp_PrometheusURL x) (CHR ''|'') + count_list (gp_AlertManagerURL x) (CHR ''|'') + 2"
    for x
    using bool_str_plain(1) [of "gp_InsecureSkipVerify x"] by (simp add: promSpecKey_def)
  have "count_list (gp_PrometheusURL g) (CHR ''|'') = 0" "count_list (gp_AlertManagerURL g) (CHR ''|'') = 0"
    using assms(2) by (simp_all add: plain_urls_def)
  then have "count_list (gp_PrometheusURL g') (CHR ''|'') + count_list (gp_AlertManagerURL g') (CHR ''|'') = 0"
    using count [of g] count [of g'] assms(1) by simp
  then show ?thesis by (simp add: plain_urls_def count_list_0_iff)
qed

lemma key_determines:
  assumes key: "promSpecKey g = promSpecKey g'" and g: "plain_urls g"
  shows "gp_PrometheusURL g = gp_PrometheusURL g' \<and> gp_AlertManagerURL g = gp_AlertManagerURL g' \<and>
    gp_InsecureSkipVerify g = gp_InsecureSkipVerify g'"
proof -
  have split: "split_on (CHR ''|'') (promSpecKey x) =
      [gp_PrometheusURL x, gp_AlertManagerURL x, bool_str (gp_InsecureSkipVerify x)]"
    if "plain_urls x" for x
    using that bool_str_plain(1) [of "gp_InsecureSkipVerify x"]
    by (simp add: promSpecKey_def plain_urls_def split_on_line split_on_no_sep)
  from key_plain [OF key g] show ?thesis
    using split [OF g] split key bool_str_plain(2) by auto
qed

lemma NewClient_for: "yields (client_for g) (NewClient env (promConfig g))"
  by (simp add: yields_def NewClient_def client_for_def promConfig_def split_beta)

lemma reuse_client_inv:
  assumes "prom_inv rc"
  shows "yields (\<lambda>rc'. prom_inv rc' \<and>
    (plain_urls g \<longrightarrow> (\<exists>c. rc_promClient rc' = Some c \<and> client_for g c))) (reuse_client env rc g)"
proof (cases "rc_promClient rc = None \<or> rc_lastPromConfig rc \<noteq> promSpecKey g")
  case True
  then show ?thesis unfolding reuse_client_def
    by (simp, intro yields_bind [OF NewClient_for] yields_return) (auto simp: prom_inv_def)
next
  case False
  then obtain c g' where c: "rc_promClient rc = Some c" "rc_lastPromConfig rc = promSpecKey g"
    "rc_lastPromConfig rc = promSpecKey g'" "client_for g' c"
    using assms by (auto simp: prom_inv_def)
  have "client_for g c" if "plain_urls g"
    using key_determines [of g g'] c that by (simp add: client_for_def)
  with False c assms show ?thesis by (simp add: reuse_client_def yields_return)
qed

lemma runPrometheusChecks_inv:
  assumes "prom_inv rc"
  shows "yields (\<lambda>px. prom_inv (px_reconciler px)) (runPrometheusChecks env rc policy g)"
  using reuse_client_inv [OF assms, of _ env] assms
  by (auto simp: yields_def runPrometheusChecks_def Let_def split_beta px_reconciler_queries
      px_reconciler_triggers split: option.splits)

definition reconcile_step :: "reconciler \<Rightarrow> reconciler \<Rightarrow> bool" where
  "reconcile_step rc rc' \<longleftrightarrow>
     (\<exists>env ns name h. rc' = snd (fst (run_state (Reconcile env rc ns name) h)))"

lemma scan_inv:
  assumes "prom_inv rc"
  shows "yields (\<lambda>s. prom_inv (snd s)) (scan env rc tel policy st g)"
  unfolding scan_def
  apply (rule yields_bind [OF yields_any [of "\<lambda>_. True", OF TrueI]])
  apply (rule yields_bind [OF yields_runBuiltInChecks], simp add: runOCPClusterChecks_eq)
  apply (rule yields_bind [OF yields_any [of "\<lambda>_. True", OF TrueI]])
  apply (rule yields_bind [OF runPrometheusChecks_inv [OF assms]])
  apply (simp add: yields_def split_beta Let_def)
  done

lemma Reconcile_prom_inv:
  assumes "prom_inv rc"
  shows "prom_inv (snd (fst (run_state (Reconcile env rc ns name) h)))"
proof (cases "en_get_policy env h ns name")
  case (Inl e)
  then show ?thesis using assms by (simp add: Reconcile_missing)
next
  case (Inr policy)
  have "yields (\<lambda>r. prom_inv (snd r)) (active_cycle env rc tel policy)" for tel
    unfolding active_cycle_def Let_def
    by (rule yields_bind [OF yields_any [of "\<lambda>_. True", OF TrueI]],
        rule yields_bind [OF refresh_otel_keeps [OF carried_refl]], rule yields_bind [OF scan_inv])
      (use assms in \<open>auto intro!: yields_return elim: prom_inv_same\<close>)
  then show ?thesis using assms
    by (auto simp: Reconcile_found [OF Inr] after_get_def yields_def split_beta split: option.splits)
qed

interpretation prom_cache: inductive_invariant "\<lambda>rc. rc_promClient rc = None" reconcile_step prom_inv
  by unfold_locales
    (auto simp: reconcile_step_def Reconcile_prom_inv prom_inv_None)

text \<open>
  C20. After any sequence of reconcile cycles, over any policies and configurations, a cycle that
  evaluates Prometheus works with a client for the URLs and the TLS setting of the current
  configuration, built in this or an earlier cycle, as long as its URLs do not contain the
  separator of the change-detection key.
\<close>
theorem prom_client_current:
  assumes "reachable (\<lambda>rc. rc_promClient rc = None) reconcile_step rc"
    and "sp_Prometheus (po_Spec policy) = Some promSpec" and "pr_Enabled promSpec"
    and "global_prometheus globalConfig = Some g" and "plain_urls g"
    and "run_state (runPrometheusChecks env rc policy globalConfig) h = (px, h')"
  shows "\<exists>c. rc_promClient (px_reconciler px) = Some c \<and> client_for g c"
proof -
  have inv: "prom_inv rc" using assms(1) by (rule prom_cache.inv_reachable)
  have "\<exists>c. rc_promClient (fst (run_state (reuse_client env rc g) h)) = Some c \<and> client_for g c"
    using reuse_client_inv [OF inv, of g env] assms(5) by (simp add: yields_def)
  moreover have "px_reconciler px = fst (run_state (reuse_client env rc g) h)"
    using assms(2,3,4,6) by (auto simp: runPrometheusChecks_def Let_def split_beta
        px_reconciler_queries px_reconciler_triggers)
  ultimately show ?thesis by simp
qed

definition prom_policy :: sre_policy where
  "prom_policy = sample_policy\<lparr>po_Spec := (po_Spec sample_policy)\<lparr>sp_Prometheus :=
     Some \<lparr>pr_Enabled = True, pr_AlertTriggers = [], pr_MetricQueries = []\<rparr>\<rparr>\<rparr>"

definition sample_prom :: global_prometheus_spec where
  "sample_prom = \<lparr>gp_PrometheusURL = ''https://p'', gp_AlertManagerURL = [],
     gp_InsecureSkipVerify = False, gp_BearerTokenSecretRef = None\<rparr>"

lemma sample_global_prom: "global_prometheus (Some (sample_global logs)) = Some sample_prom"
  by (simp add: global_prometheus_def sample_global_def sample_prom_def)

lemma prom_policy_spec: "sp_Prometheus (po_Spec prom_policy) =
    Some \<lparr>pr_Enabled = True, pr_AlertTriggers = [], pr_MetricQueries = []\<rparr>"
  by (simp add: prom_policy_def)

theorem prom_client_current_witness:
  "\<exists>c. rc_promClient (px_reconciler (fst (run_state (runPrometheusChecks silent_env
      (snd (fst (run_state (Reconcile (policy_env sample_policy) running_reconciler ''sre'' ''vms'') [])))
      prom_policy (Some (sample_global True))) []))) = Some c \<and> client_for sample_prom c"
proof -
  have "reachable (\<lambda>rc. rc_promClient rc = None) reconcile_step
      (snd (fst (run_state (Reconcile (policy_env sample_policy) running_reconciler ''sre'' ''vms'') [])))"
    by (rule reach_step [OF reach_init [of _ running_reconciler]])
      (auto simp: running_reconciler_def reconcile_step_def)
  moreover have "plain_urls sample_prom" by (simp add: plain_urls_def sample_prom_def)
  ultimately show ?thesis
    using prom_client_current [OF _ prom_policy_spec _ sample_global_prom _ prod.collapse [symmetric]]
    by simp
qed

text \<open>
  The change-detection key leaves out the bearer-token secret: when only the secret
  reference changes, the old client is kept with its old token, and the new token file is not
  even read.
\<close>
theorem prom_token_ref_ignored:
  assumes "rc_promClient rc = Some c" and "rc_lastPromConfig rc = promSpecKey g"
  shows "run_state (reuse_client env rc (g\<lparr>gp_BearerTokenSecretRef := ref\<rparr>)) h = (rc, h)"
  using assms by (simp add: reuse_client_def promSpecKey_def)

theorem prom_token_ref_ignored_witness:
  "run_state (reuse_client silent_env
      (running_reconciler\<lparr>rc_promClient := Some custom_client,
         rc_lastPromConfig := promSpecKey sample_prom\<rparr>)
      (sample_prom\<lparr>gp_BearerTokenSecretRef := Some \<lparr>sk_Name = ''s'', sk_Key = ''k''\<rparr>\<rparr>)) [] =
    (running_reconciler\<lparr>rc_promClient := Some custom_client,
       rc_lastPromConfig := promSpecKey sample_prom\<rparr>, [])"
  by (rule prom_token_ref_ignored [of _ custom_client]) simp_all

end
