(* ===== verification/Policy_Lifecycle.thy ===== *)
theory Policy_Lifecycle
  imports Reconcile_Cycle
begin

text \<open>
  One policy in a cluster, over time: users create, edit and delete it, and the operator
  reconciles it, in any order. Users may edit anything but the status, the operator's finalizer
  included; an edit that adds or removes that finalizer is labelled with an actor of its own. The
  API server is a parameter with its documented contract: an
  update leaves the status alone, a status update leaves everything else alone, an object with
  finalizers is only marked when it is deleted, and is removed once a marked object loses its
  last finalizer. A read is current, up to the conditions that earlier cycles changed in
  place in the cached object, or it is stale, and then every write is refused. The detailed system
  refines an abstract life cycle of five states, and keeps the status well formed.
\<close>

section \<open>The cluster\<close>

record api_server =
  as_update :: "sre_policy option \<Rightarrow> sre_policy \<Rightarrow> sre_policy option"
  as_status :: "sre_policy option \<Rightarrow> sre_policy \<Rightarrow> sre_policy option"

definition documented :: "api_server \<Rightarrow> bool" where
  "documented a \<longleftrightarrow>
     (\<forall>p. as_update a None p = None \<and> as_status a None p = None) \<and>
     (\<forall>s p. as_status a (Some s) p = Some (s\<lparr>po_Status := po_Status p\<rparr>)) \<and>
     (\<forall>s p. po_DeletionTimestamp s \<noteq> None \<and> po_Finalizers p = [] \<longrightarrow> as_update a (Some s) p = None) \<and>
     (\<forall>s p. po_DeletionTimestamp s = None \<or> po_Finalizers p \<noteq> [] \<longrightarrow> (\<exists>gen.
        as_update a (Some s) p = Some (p\<lparr>po_Status := po_Status s,
          po_DeletionTimestamp := po_DeletionTimestamp s, po_Generation := gen\<rparr>)))"

text \<open>\<open>as_update\<close> and \<open>as_status\<close> give the stored object after a write the server accepts.\<close>

record cluster =
  cu_policy :: "sre_policy option"
  cu_reconciler :: reconciler

text \<open>
  What a read of the policy can give: an object the cache holds for the stored one, or a stale
  one if writes conflict. The copy that \<open>Get\<close> hands out shares the array of the conditions with
  the cache (theory Deep_Copy), so a cycle whose status write failed leaves its settings of
  existing conditions in the cached object.
\<close>

definition writes_conflict :: "env \<Rightarrow> bool" where
  "writes_conflict env \<longleftrightarrow> (\<forall>h p. en_update_policy env h p \<noteq> None \<and> en_update_status env h p \<noteq> None)"

definition cached_as :: "sre_policy \<Rightarrow> sre_policy \<Rightarrow> bool" where
  "cached_as s p \<longleftrightarrow>
     (\<exists>cs. p = s\<lparr>po_Status := (po_Status s)\<lparr>st_Conditions := cs\<rparr>\<rparr> \<and>
        conditions_evolve (st_Conditions (po_Status s)) cs \<and>
        map co_Type cs = map co_Type (st_Conditions (po_Status s)))"

definition reads :: "env \<Rightarrow> history \<Rightarrow> string \<Rightarrow> string \<Rightarrow> sre_policy option \<Rightarrow> bool" where
  "reads env h ns name s \<longleftrightarrow>
     (case en_get_policy env h ns name of
        Inl e \<Rightarrow> True
      | Inr p \<Rightarrow> (\<exists>q. s = Some q \<and> cached_as q p) \<or> writes_conflict env)"

lemma cached_refl: "cached_as p p"
  unfolding cached_as_def by (intro exI [of _ "st_Conditions (po_Status p)"]) (simp add: ce_refl)

lemma cached_same:
  "cached_as s p \<Longrightarrow> po_DeletionTimestamp p = po_DeletionTimestamp s \<and> po_Finalizers p = po_Finalizers s \<and>
     po_Spec p = po_Spec s"
  by (auto simp: cached_as_def)

text \<open>The effect on the stored object of the calls of a cycle, each at its place in the history.\<close>

fun apply_write :: "api_server \<Rightarrow> env \<Rightarrow> history \<Rightarrow> api_call \<Rightarrow> sre_policy option \<Rightarrow> sre_policy option" where
  "apply_write a env h (UpdatePolicy p) s = (if en_update_policy env h p = None then as_update a s p else s)"
| "apply_write a env h (UpdateStatus p) s = (if en_update_status env h p = None then as_status a s p else s)"
| "apply_write a env h c s = s"

fun apply_writes :: "api_server \<Rightarrow> env \<Rightarrow> history \<Rightarrow> api_call list \<Rightarrow> sre_policy option \<Rightarrow> sre_policy option" where
  "apply_writes a env h [] s = s"
| "apply_writes a env h (c # cs) s = apply_writes a env (h @ [c]) cs (apply_write a env h c s)"

text \<open>
  Who makes a step: users, the operator, or a user whose edit changes whether the object carries
  the operator's finalizer, which the API server allows.
\<close>

datatype actor = User | UserForce | Operator

definition edit_actor :: "sre_policy \<Rightarrow> sre_policy \<Rightarrow> actor" where
  "edit_actor s p =
     (if finalizerName \<in> set (po_Finalizers p) \<longleftrightarrow> finalizerName \<in> set (po_Finalizers s)
      then User else UserForce)"

inductive cluster_step :: "api_server \<Rightarrow> actor \<Rightarrow> cluster \<Rightarrow> cluster \<Rightarrow> bool" for a where
  cs_create: "cu_policy c = None \<Longrightarrow> po_Status p = empty_status \<Longrightarrow> po_DeletionTimestamp p = None \<Longrightarrow>
    cluster_step a User c (c\<lparr>cu_policy := Some p\<rparr>)"
| cs_edit: "cu_policy c = Some s \<Longrightarrow>
    cluster_step a (edit_actor s p) c (c\<lparr>cu_policy := as_update a (Some s) p\<rparr>)"
| cs_delete: "cu_policy c = Some s \<Longrightarrow> po_Finalizers s \<noteq> [] \<Longrightarrow>
    cluster_step a User c (c\<lparr>cu_policy := Some (s\<lparr>po_DeletionTimestamp := Some t\<rparr>)\<rparr>)"
| cs_remove: "cu_policy c = Some s \<Longrightarrow> po_Finalizers s = [] \<Longrightarrow>
    cluster_step a User c (c\<lparr>cu_policy := None\<rparr>)"
| cs_reconcile: "reads env h ns name (cu_policy c) \<Longrightarrow>
    run_state (Reconcile env (cu_reconciler c) ns name) h = ((out, rc'), h @ calls) \<Longrightarrow>
    cluster_step a Operator c
      \<lparr>cu_policy = apply_writes a env h calls (cu_policy c), cu_reconciler = rc'\<rparr>"

inductive_cases user_stepE: "cluster_step a User c c'"
inductive_cases operator_stepE: "cluster_step a Operator c c'"

section \<open>The effect of one reconcile cycle\<close>

lemma apply_writes_append:
  "apply_writes a env h (cs @ ds) s = apply_writes a env (h @ cs) ds (apply_writes a env h cs s)"
  by (induction cs arbitrary: h s) simp_all

lemma apply_writes_scan:
  "list_all (scan_call env rc policy) cs \<Longrightarrow> apply_writes a env h cs s = s"
proof (induction cs arbitrary: h)
  case Nil
  then show ?case by simp
next
  case (Cons c cs)
  then have "apply_write a env h c s = s" by (cases c) simp_all
  with Cons show ?case by simp
qed

lemma apply_writes_conflict: "writes_conflict env \<Longrightarrow> apply_writes a env h cs s = s"
proof (induction cs arbitrary: h)
  case Nil
  then show ?case by simp
next
  case (Cons c cs)
  have refused: "en_update_policy env h p \<noteq> None" "en_update_status env h p \<noteq> None" for p
    using Cons.prems unfolding writes_conflict_def by blast+
  have "apply_write a env h c s = s" by (cases c) (simp_all add: refused del: not_None_eq)
  with Cons show ?case by simp
qed

text \<open>
  The writes a cycle can get through for the stored policy \<open>s\<close> read as \<open>p\<close>: none, one of the
  short paths, or the report of a scan.
\<close>

inductive short_effect :: "api_server \<Rightarrow> sre_policy \<Rightarrow> sre_policy \<Rightarrow> sre_policy option \<Rightarrow> bool" for a s p where
  se_none: "short_effect a s p (Some s)"
| se_release: "po_DeletionTimestamp p \<noteq> None \<Longrightarrow> finalizerName \<in> set (po_Finalizers p) \<Longrightarrow>
    short_effect a s p (as_update a (Some s)
      (p\<lparr>po_Finalizers := filter (\<lambda>f. f \<noteq> finalizerName) (po_Finalizers p)\<rparr>))"
| se_adopt: "po_DeletionTimestamp p = None \<Longrightarrow> finalizerName \<notin> set (po_Finalizers p) \<Longrightarrow>
    short_effect a s p (as_update a (Some s) (p\<lparr>po_Finalizers := po_Finalizers p @ [finalizerName]\<rparr>))"
| se_pause: "po_DeletionTimestamp p = None \<Longrightarrow> finalizerName \<in> set (po_Finalizers p) \<Longrightarrow>
    short_effect a s p (as_status a (Some s) (p\<lparr>po_Status := (po_Status p)\<lparr>st_Phase := ''Paused''\<rparr>\<rparr>))"

inductive cycle_effect :: "api_server \<Rightarrow> sre_policy \<Rightarrow> sre_policy \<Rightarrow> sre_policy option \<Rightarrow> bool" for a s p where
  ef_short: "short_effect a s p t \<Longrightarrow> cycle_effect a s p t"
| ef_report: "active_policy p \<Longrightarrow> list_all log_finding findings \<Longrightarrow> cycle_report p findings now q \<Longrightarrow>
    cycle_effect a s p (as_status a (Some s) q)"

lemmas ef_none = ef_short [OF se_none]

lemma reconcile_active_effect:
  assumes get: "en_get_policy env h ns name = Inr p" and act: "active_policy p"
    and run: "run_state (Reconcile env rc ns name) h = ((out, rc'), h @ calls)"
  shows "cycle_effect a s p (apply_writes a env h calls (Some s))"
proof (cases "rc_Telemetry rc")
  case None
  then have "calls = [GetPolicy ns name]"
    using get act run by (simp add: Reconcile_found after_get_active)
  then show ?thesis by (simp add: ef_none)
next
  case (Some tel)
  from reconcile_cycle_report [OF get act Some run] obtain findings now q cs where
    "h @ calls = h @ GetPolicy ns name # cs @ [UpdateStatus q]" "list_all (scan_call env rc p) cs"
    "list_all log_finding findings" "cycle_report p findings now q" by blast
  then show ?thesis using act
    by (auto simp: apply_writes_append apply_writes_scan intro: ef_none ef_report)
qed

lemma reconcile_short_effect:
  assumes get: "en_get_policy env h ns name = Inr p" and act: "\<not> active_policy p"
    and run: "run_state (Reconcile env rc ns name) h = ((out, rc'), h @ calls)"
  shows "short_effect a s p (apply_writes a env h calls (Some s))"
proof -
  note path = Reconcile_path [OF run, unfolded get sum.case Let_def]
  from act consider
      (deleting) "po_DeletionTimestamp p \<noteq> None" "finalizerName \<in> set (po_Finalizers p)"
    | (released) "po_DeletionTimestamp p \<noteq> None" "finalizerName \<notin> set (po_Finalizers p)"
    | (adopt) "po_DeletionTimestamp p = None" "finalizerName \<notin> set (po_Finalizers p)"
    | (paused) "po_DeletionTimestamp p = None" "finalizerName \<in> set (po_Finalizers p)"
        "sp_Paused (po_Spec p)"
    unfolding active_policy_def
    by (cases "po_DeletionTimestamp p = None"; cases "finalizerName \<in> set (po_Finalizers p)") simp_all
  then show ?thesis
  proof cases
    case deleting
    then have "calls = [GetPolicy ns name, UpdatePolicy (p\<lparr>po_Finalizers :=
        filter (\<lambda>f. f \<noteq> finalizerName) (po_Finalizers p)\<rparr>)]" using path by simp
    with deleting show ?thesis by (auto intro: se_none se_release)
  next
    case released
    then have "calls = [GetPolicy ns name]" using path by simp
    then show ?thesis by (simp add: se_none)
  next
    case adopt
    then have "calls = [GetPolicy ns name,
        UpdatePolicy (p\<lparr>po_Finalizers := po_Finalizers p @ [finalizerName]\<rparr>)]" using path by simp
    with adopt show ?thesis by (auto intro: se_none se_adopt)
  next
    case paused
    then have "calls = [GetPolicy ns name,
        UpdateStatus (p\<lparr>po_Status := (po_Status p)\<lparr>st_Phase := ''Paused''\<rparr>\<rparr>)]" using path by simp
    with paused show ?thesis by (auto intro: se_none se_pause)
  qed
qed

lemma reconcile_current_effect:
  "en_get_policy env h ns name = Inr p \<Longrightarrow>
     run_state (Reconcile env rc ns name) h = ((out, rc'), h @ calls) \<Longrightarrow>
     cycle_effect a s p (apply_writes a env h calls (Some s))"
  by (cases "active_policy p")
    (simp_all add: reconcile_active_effect ef_short [OF reconcile_short_effect])

lemma reconcile_no_telemetry_effect:
  assumes get: "en_get_policy env h ns name = Inr p" and tel: "rc_Telemetry rc = None"
    and run: "run_state (Reconcile env rc ns name) h = ((out, rc'), h @ calls)"
  shows "short_effect a s p (apply_writes a env h calls (Some s))"
proof (cases "active_policy p")
  case True
  then have "calls = [GetPolicy ns name]"
    using get tel run by (simp add: Reconcile_found after_get_active)
  then show ?thesis by (simp add: se_none)
qed (rule reconcile_short_effect [OF get _ run])

lemma reads_cases:
  assumes reads: "reads env h ns name (Some s)"
    and run: "run_state (Reconcile env rc ns name) h = ((out, rc'), h @ calls)"
  obtains (same) "apply_writes a env h calls (Some s) = Some s"
    | (current) p where "en_get_policy env h ns name = Inr p" "cached_as s p"
proof (cases "en_get_policy env h ns name")
  case (Inl e)
  then have "calls = [GetPolicy ns name]" using run by (simp add: Reconcile_missing)
  then show ?thesis by (intro same) simp
next
  case (Inr p)
  with reads show ?thesis
    by (auto simp: reads_def intro: same current apply_writes_conflict)
qed

lemma reconcile_effect:
  assumes "reads env h ns name (Some s)"
    and run: "run_state (Reconcile env rc ns name) h = ((out, rc'), h @ calls)"
  shows "\<exists>p. cached_as s p \<and> cycle_effect a s p (apply_writes a env h calls (Some s))"
  using assms
proof (cases rule: reads_cases [where a = a])
  case same
  then show ?thesis by (metis cached_refl ef_none)
next
  case (current p)
  then show ?thesis using reconcile_current_effect [OF _ run] by blast
qed

lemma reconcile_no_telemetry_reads:
  assumes "reads env h ns name (Some s)" and tel: "rc_Telemetry rc = None"
    and run: "run_state (Reconcile env rc ns name) h = ((out, rc'), h @ calls)"
  shows "\<exists>p. cached_as s p \<and> short_effect a s p (apply_writes a env h calls (Some s))"
  using assms(1) run
proof (cases rule: reads_cases [where a = a])
  case same
  then show ?thesis by (metis cached_refl se_none)
next
  case (current p)
  then show ?thesis using reconcile_no_telemetry_effect [OF _ tel run] by blast
qed

text \<open>A policy that is not there stays away.\<close>

lemma reconcile_absent:
  assumes reads: "reads env h ns name None"
    and run: "run_state (Reconcile env rc ns name) h = ((out, rc'), h @ calls)"
  shows "apply_writes a env h calls None = None"
proof (cases "en_get_policy env h ns name")
  case (Inl e)
  then have "calls = [GetPolicy ns name]" using run by (simp add: Reconcile_missing)
  then show ?thesis by simp
next
  case (Inr p)
  with reads show ?thesis by (simp add: reads_def apply_writes_conflict)
qed

section \<open>The abstract life cycle\<close>

text \<open>
  What a user of the cluster sees of a policy: whether it is there, whether the operator's
  finalizer protects it, and whether its deletion has been asked for.
\<close>

datatype phase = Absent | Unmanaged | Managed | Terminating | Released

definition life :: "sre_policy option \<Rightarrow> phase" where
  "life s =
     (case s of
        None \<Rightarrow> Absent
      | Some p \<Rightarrow>
          if po_DeletionTimestamp p = None
          then (if finalizerName \<in> set (po_Finalizers p) then Managed else Unmanaged)
          else (if finalizerName \<in> set (po_Finalizers p) then Terminating else Released))"

inductive lifecycle_move :: "actor \<Rightarrow> phase \<Rightarrow> phase \<Rightarrow> bool" where
  lm_stay: "lifecycle_move who l l"
| lm_create: "l \<in> {Unmanaged, Managed} \<Longrightarrow> lifecycle_move User Absent l"
| lm_remove: "l \<in> {Unmanaged, Released} \<Longrightarrow> lifecycle_move User l Absent"
| lm_mark: "lifecycle_move User Unmanaged Released"
| lm_delete: "lifecycle_move User Managed Terminating"
| lm_adopt: "lifecycle_move Operator Unmanaged Managed"
| lm_release: "l \<in> {Released, Absent} \<Longrightarrow> lifecycle_move Operator Terminating l"
| lm_strip: "lifecycle_move UserForce Managed Unmanaged"
| lm_restore: "lifecycle_move UserForce Unmanaged Managed"
| lm_strip_marked: "l \<in> {Released, Absent} \<Longrightarrow> lifecycle_move UserForce Terminating l"
| lm_restore_marked: "lifecycle_move UserForce Released Terminating"

inductive_cases lifecycle_moveE [elim!]: "lifecycle_move who l l'"

lemma documented_status: "documented a \<Longrightarrow> as_status a (Some s) p = Some (s\<lparr>po_Status := po_Status p\<rparr>)"
  by (simp add: documented_def)

lemma documented_updateE:
  assumes doc: "documented a"
  obtains (removed) "as_update a (Some s) p = None" "po_DeletionTimestamp s \<noteq> None" "po_Finalizers p = []"
    | (kept) gen where "as_update a (Some s) p = Some (p\<lparr>po_Status := po_Status s,
        po_DeletionTimestamp := po_DeletionTimestamp s, po_Generation := gen\<rparr>)"
      "po_DeletionTimestamp s = None \<or> po_Finalizers p \<noteq> []"
proof (cases "po_DeletionTimestamp s \<noteq> None \<and> po_Finalizers p = []")
  case True
  with doc show ?thesis by (intro removed) (simp_all add: documented_def)
next
  case False
  with doc show ?thesis unfolding documented_def by (metis kept)
qed

lemma short_moves:
  assumes doc: "documented a" and eff: "short_effect a s p t" and cached: "cached_as s p"
  shows "lifecycle_move Operator (life (Some s)) (life t)"
  using eff
proof cases
  case se_none
  then show ?thesis by (simp add: lm_stay)
next
  case se_release
  then show ?thesis using cached_same [OF cached]
    by (cases rule: documented_updateE [OF doc, of s "p\<lparr>po_Finalizers :=
        filter (\<lambda>f. f \<noteq> finalizerName) (po_Finalizers p)\<rparr>"])
      (auto simp: life_def intro!: lm_release)
next
  case se_adopt
  then show ?thesis using cached_same [OF cached]
    by (cases rule: documented_updateE [OF doc, of s
        "p\<lparr>po_Finalizers := po_Finalizers p @ [finalizerName]\<rparr>"])
      (auto simp: life_def intro: lm_adopt)
next
  case se_pause
  then show ?thesis by (simp add: documented_status [OF doc] life_def lm_stay)
qed

lemma effect_moves:
  assumes doc: "documented a" and eff: "cycle_effect a s p t" and cached: "cached_as s p"
  shows "lifecycle_move Operator (life (Some s)) (life t)"
  using eff
proof cases
  case ef_short
  then show ?thesis by (rule short_moves [OF doc _ cached])
next
  case (ef_report findings now q)
  then show ?thesis by (simp add: documented_status [OF doc] life_def lm_stay)
qed

lemma edit_moves:
  assumes doc: "documented a"
  shows "lifecycle_move (edit_actor s p) (life (Some s)) (life (as_update a (Some s) p))"
  by (cases rule: documented_updateE [OF doc, of s p])
    (auto simp: life_def edit_actor_def intro: lifecycle_move.intros)

text \<open>Every step is a move of the abstract life cycle, by the same actor.\<close>

lemma step_moves:
  assumes doc: "documented a" and step: "cluster_step a who c c'"
  shows "lifecycle_move who (life (cu_policy c)) (life (cu_policy c'))"
  using step
proof cases
  case (cs_create p)
  then show ?thesis by (auto simp: life_def intro!: lm_create)
next
  case (cs_edit s p)
  then show ?thesis using edit_moves [OF doc, of s p] by simp
next
  case (cs_delete s t)
  then show ?thesis by (auto simp: life_def intro: lm_stay lm_mark lm_delete)
next
  case (cs_remove s)
  then show ?thesis by (auto simp: life_def intro: lm_remove)
next
  case (cs_reconcile env h ns name out rc' calls)
  show ?thesis
  proof (cases "cu_policy c")
    case None
    with reconcile_absent [of env h ns name "cu_reconciler c" out rc' calls a] cs_reconcile
    show ?thesis by (simp add: lm_stay)
  next
    case (Some s)
    with reconcile_effect [of env h ns name s "cu_reconciler c" out rc' calls a] cs_reconcile
    show ?thesis by (auto intro: effect_moves [OF doc])
  qed
qed

text \<open>Runs of the cluster, with the phase each step leads to.\<close>

inductive cluster_trace :: "api_server \<Rightarrow> cluster \<Rightarrow> (actor \<times> phase) list \<Rightarrow> cluster \<Rightarrow> bool" for a where
  ct_done: "cluster_trace a c [] c"
| ct_step: "cluster_step a who c c1 \<Longrightarrow> cluster_trace a c1 tr c' \<Longrightarrow>
    cluster_trace a c ((who, life (cu_policy c1)) # tr) c'"

inductive lifecycle_trace :: "phase \<Rightarrow> (actor \<times> phase) list \<Rightarrow> phase \<Rightarrow> bool" where
  lt_done: "lifecycle_trace l [] l"
| lt_step: "lifecycle_move who l l1 \<Longrightarrow> lifecycle_trace l1 tr l' \<Longrightarrow>
    lifecycle_trace l ((who, l1) # tr) l'"

inductive_simps lifecycle_trace_simps [simp]:
  "lifecycle_trace l [] l'" "lifecycle_trace l (x # tr) l'"

lemma trace_refines:
  assumes "documented a" and "cluster_trace a c tr c'"
  shows "lifecycle_trace (life (cu_policy c)) tr (life (cu_policy c'))"
  using assms(2) by (induction rule: cluster_trace.induct) (auto intro: step_moves [OF assms(1)])

lemma lifecycle_trace_released:
  "lifecycle_trace l tr l' \<Longrightarrow> l \<in> {Managed, Terminating} \<Longrightarrow> l' \<notin> {Managed, Terminating} \<Longrightarrow>
     (Operator, Released) \<in> set tr \<or> (Operator, Absent) \<in> set tr \<or> UserForce \<in> fst ` set tr"
  by (induction rule: lifecycle_trace.induct) auto

section \<open>What the stored status looks like\<close>

definition conditions_ok :: "status_condition list \<Rightarrow> bool" where
  "conditions_ok cs \<longleftrightarrow> distinct (map co_Type cs) \<and> condition_types cs \<subseteq> operator_conditions \<and>
     co_Status ` set cs \<subseteq> {ConditionTrue, ConditionFalse}"

fun scan_times_ok :: "time option \<Rightarrow> time option \<Rightarrow> bool" where
  "scan_times_ok None None = True"
| "scan_times_ok (Some t) (Some u) = (30 * second \<le> u - t \<and> u - t \<le> 60 * second)"
| "scan_times_ok t u = False"

definition status_ok :: "sre_policy_status \<Rightarrow> bool" where
  "status_ok st \<longleftrightarrow>
     st_Phase st \<in> {[], ''Active'', ''Paused''} \<and>
     length (st_Findings st) \<le> 500 \<and> list_all log_finding (st_Findings st) \<and>
     st_FailedCount st = 0 \<and> st_HealthyCount st = 0 \<and> st_RemediationsApplied st = 0 \<and>
     st_FiringAlertCount st = 0 \<and> st_FiringAlertNames st = [] \<and> st_ActiveWorkflows st = [] \<and>
     conditions_ok (st_Conditions st) \<and>
     scan_times_ok (st_LastScanTime st) (st_NextScanTime st) \<and>
     (st_LastScanTime st \<noteq> None \<longrightarrow>
        fst (get_condition (st_Conditions st) conditionTypeReady) = ConditionTrue)"

definition protected :: "sre_policy \<Rightarrow> bool" where
  "protected p \<longleftrightarrow> finalizerName \<in> set (po_Finalizers p) \<or> po_DeletionTimestamp p \<noteq> None"

text \<open>Nobody but the operator takes the finalizer off, unless users force it.\<close>

definition stored_ok :: "actor set \<Rightarrow> sre_policy option \<Rightarrow> bool" where
  "stored_ok W s \<longleftrightarrow> (case s of
      None \<Rightarrow> True
    | Some p \<Rightarrow> status_ok (po_Status p) \<and>
        (UserForce \<notin> W \<longrightarrow> st_LastScanTime (po_Status p) \<noteq> None \<longrightarrow> protected p))"

lemma conditions_ok_set:
  assumes "conditions_ok cs" "ty \<in> operator_conditions" "fst v \<in> {ConditionTrue, ConditionFalse}"
  shows "conditions_ok (set_condition_in ty v cs)"
proof -
  have sub: "co_Status ` set (set_condition_in ty v cs) \<subseteq> insert (fst v) (co_Status ` set cs)"
    by (induction ty v cs rule: set_condition_in.induct) auto
  have "distinct (map co_Type (set_condition_in ty v cs))"
    using assms(1) by (simp add: set_condition_types conditions_ok_def condition_types_def)
  moreover have "co_Status ` set (set_condition_in ty v cs) \<subseteq> {ConditionTrue, ConditionFalse}"
    using subset_trans [OF sub insert_subsetI] assms(1,3) by (simp add: conditions_ok_def)
  ultimately show ?thesis using assms(1,2) by (simp add: conditions_ok_def condition_types_set)
qed

lemma conditions_ok_evolve: "conditions_evolve cs ds \<Longrightarrow> conditions_ok cs \<Longrightarrow> conditions_ok ds"
  by (induction rule: conditions_evolve.induct) (auto intro: conditions_ok_set)

lemma ready_evolve:
  assumes "conditions_evolve cs ds" and "fst (get_condition cs conditionTypeReady) = ConditionTrue"
  shows "fst (get_condition ds conditionTypeReady) = ConditionTrue"
  using assms
proof (induction rule: conditions_evolve.induct)
  case (ce_set cs ds ty v)
  then show ?case
    by (cases "ty = conditionTypeReady") (simp_all add: get_set_condition get_set_condition_other)
qed

lemma cached_ok:
  assumes "cached_as s p" and "status_ok (po_Status s)"
  shows "status_ok (po_Status p)"
  using assms conditions_ok_evolve ready_evolve
  by (auto simp: cached_as_def status_ok_def)

lemma log_findings_none:
  assumes "list_all log_finding fs" and "st \<notin> {''Degraded'', ''Unknown''}"
  shows "resources_with st fs = 0"
proof -
  have "cr_Status f \<noteq> st" if "f \<in> set (first_by cr_ResourceRef fs)" for f
    using assms subsetD [OF set_first_by that] by (auto simp: list_all_iff log_finding_def)
  then show ?thesis by (simp add: resources_with_def filter_empty_conv)
qed

lemma capped_log_findings:
  assumes "list_all log_finding fs"
  shows "list_all log_finding (fst (cap_findings fs)) \<and> list_all log_finding (snd (cap_findings fs)) \<and>
    length (snd (cap_findings fs)) \<le> 500"
  using assms
  by (auto simp: cap_findings_def maxStatusFindings_def list_all_iff sorted_findings(3) dest: in_set_takeD)

lemma interval_bounds:
  "30 \<le> sint (minimumInterval specs)" "sint (minimumInterval specs) \<le> 60"
  by (simp_all add: minimumInterval_eq fold_min_le)

lemma report_ok:
  assumes rep: "cycle_report p findings now q" and logs: "list_all log_finding findings"
    and ok: "status_ok (po_Status p)"
  shows "status_ok (po_Status q)"
proof -
  note caps = capped_log_findings [OF logs]
  have zero: "resources_with ''Failed'' (fst (cap_findings findings)) = 0"
    "resources_with ''Healthy'' (fst (cap_findings findings)) = 0"
    using caps by (auto intro: log_findings_none)
  have "st_LastScanTime (po_Status q) = Some now" "st_NextScanTime (po_Status q) =
      Some (now + sint (minimumInterval (sp_Checks (po_Spec p))) * second)"
    using rep by (simp_all add: cycle_report_def)
  moreover have "conditions_ok (st_Conditions (po_Status q))"
    using rep ok conditions_ok_evolve by (auto simp: cycle_report_def carried_def status_ok_def)
  ultimately show ?thesis
    using rep ok caps zero interval_bounds [of "sp_Checks (po_Spec p)"]
    by (simp add: status_ok_def cycle_report_def carried_def Let_def to_int32_def)
qed

lemma paused_ok: "status_ok st \<Longrightarrow> status_ok (st\<lparr>st_Phase := ''Paused''\<rparr>)"
  by (simp add: status_ok_def)

lemma st_LastScanTime_paused: "st_LastScanTime (st\<lparr>st_Phase := ph\<rparr>) = st_LastScanTime st"
  by simp

text \<open>
  A short path leaves the stored status alone or writes the one read with the phase Paused, and
  keeps a protected policy protected.
\<close>

lemma short_keeps:
  assumes doc: "documented a" and eff: "short_effect a s p t" and cached: "cached_as s p"
    and q: "t = Some q"
  shows "po_Status q \<in> {po_Status s, (po_Status p)\<lparr>st_Phase := ''Paused''\<rparr>} \<and>
    (protected s \<longrightarrow> protected q)"
  using eff
proof cases
  case se_none
  with q show ?thesis by simp
next
  case se_release
  with q show ?thesis using cached_same [OF cached]
    by (cases rule: documented_updateE [OF doc, of s "p\<lparr>po_Finalizers :=
        filter (\<lambda>f. f \<noteq> finalizerName) (po_Finalizers p)\<rparr>"]) (auto simp: protected_def)
next
  case se_adopt
  with q show ?thesis
    by (cases rule: documented_updateE [OF doc, of s
        "p\<lparr>po_Finalizers := po_Finalizers p @ [finalizerName]\<rparr>"]) (auto simp: protected_def)
next
  case se_pause
  with q show ?thesis by (auto simp: documented_status [OF doc] protected_def)
qed

lemma cached_scanned: "cached_as s p \<Longrightarrow> st_LastScanTime (po_Status p) = st_LastScanTime (po_Status s)"
  by (auto simp: cached_as_def)

lemma short_ok:
  assumes doc: "documented a" and eff: "short_effect a s p t" and cached: "cached_as s p"
    and ok: "stored_ok W (Some s)"
  shows "stored_ok W t"
proof (cases t)
  case None
  then show ?thesis by (simp add: stored_ok_def)
next
  case (Some q)
  have "status_ok (po_Status s)" using ok by (simp add: stored_ok_def)
  with short_keeps [OF doc eff cached Some] paused_ok [OF cached_ok [OF cached this]]
  show ?thesis using ok cached_scanned [OF cached] by (auto simp: Some stored_ok_def)
qed

lemma effect_ok:
  assumes doc: "documented a" and eff: "cycle_effect a s p t" and cached: "cached_as s p"
    and ok: "stored_ok W (Some s)"
  shows "stored_ok W t"
  using eff
proof cases
  case ef_short
  then show ?thesis using short_ok [OF doc _ cached ok] by blast
next
  case (ef_report findings now q)
  have "status_ok (po_Status s)" using ok by (simp add: stored_ok_def)
  from report_ok [OF ef_report(4,3) cached_ok [OF cached this]] have "status_ok (po_Status q)" .
  with ef_report cached_same [OF cached] show ?thesis
    by (simp add: documented_status [OF doc] stored_ok_def protected_def active_policy_def)
qed

lemma empty_status_ok: "status_ok empty_status"
  by (simp add: status_ok_def empty_status_def conditions_ok_def condition_types_def)

lemma edit_ok:
  assumes doc: "documented a" and ok: "stored_ok W (Some s)" and who: "edit_actor s p \<in> W"
  shows "stored_ok W (as_update a (Some s) p)"
  using ok who
  by (cases rule: documented_updateE [OF doc, of s p])
    (auto simp: stored_ok_def protected_def edit_actor_def split: if_splits)

lemma step_ok:
  assumes doc: "documented a" and step: "cluster_step a who c c'" and who: "who \<in> W"
    and ok: "stored_ok W (cu_policy c)"
  shows "stored_ok W (cu_policy c')"
  using step
proof cases
  case (cs_create p)
  then show ?thesis by (simp add: stored_ok_def empty_status_ok) (simp add: empty_status_def)
next
  case (cs_edit s p)
  then show ?thesis using edit_ok [OF doc, of W s p] ok who by simp
next
  case (cs_delete s t)
  with ok show ?thesis by (simp add: stored_ok_def protected_def)
next
  case (cs_remove s)
  then show ?thesis by (simp add: stored_ok_def)
next
  case (cs_reconcile env h ns name out rc' calls)
  show ?thesis
  proof (cases "cu_policy c")
    case None
    with reconcile_absent [of env h ns name "cu_reconciler c" out rc' calls a] cs_reconcile
    show ?thesis by (simp add: stored_ok_def)
  next
    case (Some s)
    with reconcile_effect [of env h ns name s "cu_reconciler c" out rc' calls a] cs_reconcile ok
    show ?thesis by (auto intro: effect_ok [OF doc])
  qed
qed

definition empty_cluster :: "cluster \<Rightarrow> bool" where
  "empty_cluster c \<longleftrightarrow> cu_policy c = None"

text \<open>The steps of a cluster in which only some actors act.\<close>

definition cluster_moves :: "api_server \<Rightarrow> actor set \<Rightarrow> cluster \<Rightarrow> cluster \<Rightarrow> bool" where
  "cluster_moves a W c c' \<longleftrightarrow> documented a \<and> (\<exists>who \<in> W. cluster_step a who c c')"

interpretation stored_status: inductive_invariant empty_cluster "cluster_moves a W"
    "\<lambda>c. stored_ok W (cu_policy c)" for a W
proof
  show "empty_cluster c \<Longrightarrow> stored_ok W (cu_policy c)" for c
    by (simp add: empty_cluster_def stored_ok_def)
  show "stored_ok W (cu_policy c) \<Longrightarrow> cluster_moves a W c c' \<Longrightarrow> stored_ok W (cu_policy c')" for c c'
    unfolding cluster_moves_def using step_ok by blast
qed

section \<open>A sample cluster\<close>

definition sample_server :: api_server where
  "sample_server =
     \<lparr>as_update = (\<lambda>s p. case s of
          None \<Rightarrow> None
        | Some o' \<Rightarrow>
            if po_DeletionTimestamp o' \<noteq> None \<and> po_Finalizers p = [] then None
            else Some (p\<lparr>po_Status := po_Status o', po_DeletionTimestamp := po_DeletionTimestamp o',
              po_Generation := po_Generation o' + 1\<rparr>)),
      as_status = (\<lambda>s p. map_option (\<lambda>o'. o'\<lparr>po_Status := po_Status p\<rparr>) s)\<rparr>"

lemma sample_documented: "documented sample_server"
  by (auto simp: documented_def sample_server_def)

lemma silent_writes [simp]:
  "en_update_policy (policy_env p) h q = None" "en_update_status (policy_env p) h q = None"
  by (simp_all add: policy_env_def silent_env_def)

lemma reconcile_step_current:
  assumes "run_state (Reconcile (policy_env p) rc ns name) [] = ((out, rc'), calls)"
  shows "cluster_step a Operator \<lparr>cu_policy = Some p, cu_reconciler = rc\<rparr>
    \<lparr>cu_policy = apply_writes a (policy_env p) [] calls (Some p), cu_reconciler = rc'\<rparr>"
  using cs_reconcile [of "policy_env p" "[]" ns name "\<lparr>cu_policy = Some p, cu_reconciler = rc\<rparr>"
      out rc' calls a] assms
  by (simp add: reads_def cached_refl)

text \<open>The operator adopts an unmanaged policy and releases a terminating one.\<close>

lemma adopt_step:
  assumes "po_DeletionTimestamp p = None" "finalizerName \<notin> set (po_Finalizers p)"
  shows "cluster_step a Operator \<lparr>cu_policy = Some p, cu_reconciler = rc\<rparr>
    \<lparr>cu_policy = as_update a (Some p) (p\<lparr>po_Finalizers := po_Finalizers p @ [finalizerName]\<rparr>),
     cu_reconciler = rc\<rparr>"
proof -
  obtain out rc' calls where run:
    "run_state (Reconcile (policy_env p) rc [] []) [] = ((out, rc'), calls)" by (metis prod.collapse)
  from reconcile_step_current [OF run, of a] Reconcile_path [OF run] assms show ?thesis by simp
qed

lemma release_step:
  assumes "po_DeletionTimestamp p \<noteq> None" "finalizerName \<in> set (po_Finalizers p)"
  shows "cluster_step a Operator \<lparr>cu_policy = Some p, cu_reconciler = rc\<rparr>
    \<lparr>cu_policy = as_update a (Some p) (p\<lparr>po_Finalizers := filter (\<lambda>f. f \<noteq> finalizerName) (po_Finalizers p)\<rparr>),
     cu_reconciler = rc\<rparr>"
proof -
  obtain out rc' calls where run:
    "run_state (Reconcile (policy_env p) rc [] []) [] = ((out, rc'), calls)" by (metis prod.collapse)
  from reconcile_step_current [OF run, of a] Reconcile_path [OF run] assms show ?thesis by simp
qed

definition newborn :: sre_policy where
  "newborn = sample_policy\<lparr>po_Finalizers := []\<rparr>"

definition doomed :: sre_policy where
  "doomed = sample_policy\<lparr>po_Generation := 4, po_DeletionTimestamp := Some 9\<rparr>"

lemma newborn_adopted:
  "as_update sample_server (Some newborn) (newborn\<lparr>po_Finalizers := po_Finalizers newborn @ [finalizerName]\<rparr>) =
     Some (sample_policy\<lparr>po_Generation := 4\<rparr>)"
  by (simp add: newborn_def sample_server_def sample_policy_def)

lemma doomed_released:
  "as_update sample_server (Some doomed)
     (doomed\<lparr>po_Finalizers := filter (\<lambda>f. f \<noteq> finalizerName) (po_Finalizers doomed)\<rparr>) = None"
  by (simp add: doomed_def sample_server_def sample_policy_def)

lemma sample_life:
  "cluster_trace sample_server \<lparr>cu_policy = None, cu_reconciler = rc\<rparr>
     [(User, Unmanaged), (Operator, Managed), (User, Terminating), (Operator, Absent)]
     \<lparr>cu_policy = None, cu_reconciler = rc\<rparr>"
proof -
  let ?c = "\<lambda>s. \<lparr>cu_policy = s, cu_reconciler = rc\<rparr>"
  have "cluster_step sample_server User (?c None) (?c (Some newborn))"
    using cs_create [of "?c None" newborn] by (simp add: newborn_def sample_policy_def)
  moreover have "cluster_step sample_server Operator (?c (Some newborn)) (?c (Some (sample_policy\<lparr>po_Generation := 4\<rparr>)))"
    using adopt_step [of newborn sample_server rc] newborn_adopted
    by (simp add: newborn_def sample_policy_def)
  moreover have "cluster_step sample_server User (?c (Some (sample_policy\<lparr>po_Generation := 4\<rparr>))) (?c (Some doomed))"
    using cs_delete [of "?c (Some (sample_policy\<lparr>po_Generation := 4\<rparr>))" _ sample_server 9]
    by (simp add: doomed_def sample_policy_def)
  moreover have "cluster_step sample_server Operator (?c (Some doomed)) (?c None)"
    using release_step [of doomed sample_server rc] doomed_released
    by (simp add: doomed_def sample_policy_def)
  moreover have "life (Some newborn) = Unmanaged" "life (Some (sample_policy\<lparr>po_Generation := 4\<rparr>)) = Managed"
    "life (Some doomed) = Terminating" "life None = Absent"
    by (simp_all add: life_def newborn_def doomed_def sample_policy_def)
  ultimately show ?thesis
    using ct_step [of sample_server User "?c None" "?c (Some newborn)"]
      ct_step [of sample_server Operator "?c (Some newborn)"]
      ct_step [of sample_server User "?c (Some (sample_policy\<lparr>po_Generation := 4\<rparr>))"]
      ct_step [of sample_server Operator "?c (Some doomed)"] ct_done
    by (metis cluster.select_convs(1))
qed

section \<open>Properties\<close>

text \<open>
  C6. The life cycle of a policy refines an abstract one. Whatever users and the operator do, in
  any order, with stale reads, refused writes and edits of any field but the status, every run of
  the detailed cluster is a run of the five abstract phases, step by step and with the same actors: only users
  create policies; only the operator adopts an unmanaged policy and releases a terminating
  one, unless a user edits the operator's finalizer itself, a move that is labelled as such;
  and a policy under the finalizer leaves its protection only by a release of the operator or by
  such an edit, so without one nobody can make a managed policy vanish.
\<close>
theorem lifecycle_refined:
  assumes "documented a" and "cluster_trace a c tr c'"
  shows "lifecycle_trace (life (cu_policy c)) tr (life (cu_policy c')) \<and>
    (life (cu_policy c) \<in> {Managed, Terminating} \<and> life (cu_policy c') \<notin> {Managed, Terminating} \<longrightarrow>
       (Operator, Released) \<in> set tr \<or> (Operator, Absent) \<in> set tr \<or> UserForce \<in> fst ` set tr)"
  using trace_refines [OF assms] lifecycle_trace_released by blast

lemma sample_life_phases:
  "life (cu_policy \<lparr>cu_policy = None, cu_reconciler = rc\<rparr>) = Absent"
  "life (cu_policy \<lparr>cu_policy = Some doomed, cu_reconciler = rc\<rparr>) = Terminating"
  by (simp_all add: life_def doomed_def sample_policy_def)

theorem lifecycle_refined_witness:
  "lifecycle_trace Absent
     [(User, Unmanaged), (Operator, Managed), (User, Terminating), (Operator, Absent)] Absent"
  using lifecycle_refined [OF sample_documented sample_life [of running_reconciler], THEN conjunct1]
  unfolding sample_life_phases .

text \<open>A user who takes the finalizer off a policy being deleted makes it vanish: the move exists.\<close>

lemma forced_life:
  "cluster_trace sample_server \<lparr>cu_policy = Some doomed, cu_reconciler = rc\<rparr> [(UserForce, Absent)]
     \<lparr>cu_policy = None, cu_reconciler = rc\<rparr>"
proof -
  let ?p = "doomed\<lparr>po_Finalizers := []\<rparr>"
  have "edit_actor doomed ?p = UserForce" by (simp add: edit_actor_def doomed_def sample_policy_def)
  moreover have "as_update sample_server (Some doomed) ?p = None"
    by (simp add: sample_server_def doomed_def)
  ultimately have "cluster_step sample_server UserForce \<lparr>cu_policy = Some doomed, cu_reconciler = rc\<rparr>
      \<lparr>cu_policy = None, cu_reconciler = rc\<rparr>"
    using cs_edit [of "\<lparr>cu_policy = Some doomed, cu_reconciler = rc\<rparr>" doomed sample_server ?p] by simp
  from ct_step [OF this ct_done] show ?thesis by (simp add: life_def)
qed

text \<open>
  C14. Deletion and adoption make progress: when a cycle reads the stored policy and its update is
  accepted, a policy being deleted loses the finalizer, and disappears when no other finalizer
  holds it; a policy without the finalizer gets it.
\<close>
theorem reconcile_progress:
  assumes "documented a" and "en_get_policy env h ns name = Inr p"
    and "\<forall>q. en_update_policy env (h @ [GetPolicy ns name]) q = None"
    and "run_state (Reconcile env rc ns name) h = ((out, rc'), h @ calls)"
  shows "(life (Some p) = Unmanaged \<longrightarrow> life (apply_writes a env h calls (Some p)) = Managed) \<and>
    (life (Some p) = Terminating \<longrightarrow> life (apply_writes a env h calls (Some p)) =
      (if set (po_Finalizers p) = {finalizerName} then Absent else Released))"
proof (intro conjI impI)
  assume "life (Some p) = Unmanaged"
  then have p: "po_DeletionTimestamp p = None" "finalizerName \<notin> set (po_Finalizers p)"
    by (simp_all add: life_def split: if_splits)
  then have calls: "calls = [GetPolicy ns name,
      UpdatePolicy (p\<lparr>po_Finalizers := po_Finalizers p @ [finalizerName]\<rparr>)]"
    using Reconcile_path [OF assms(4)] assms(2) by (simp add: Let_def)
  show "life (apply_writes a env h calls (Some p)) = Managed"
    using calls assms(3) p(1)
    by (cases rule: documented_updateE [OF assms(1), of p
        "p\<lparr>po_Finalizers := po_Finalizers p @ [finalizerName]\<rparr>"]) (simp_all add: life_def)
next
  assume "life (Some p) = Terminating"
  then have p: "po_DeletionTimestamp p \<noteq> None" "finalizerName \<in> set (po_Finalizers p)"
    by (simp_all add: life_def split: if_splits)
  let ?q = "p\<lparr>po_Finalizers := filter (\<lambda>f. f \<noteq> finalizerName) (po_Finalizers p)\<rparr>"
  have calls: "calls = [GetPolicy ns name, UpdatePolicy ?q]"
    using Reconcile_path [OF assms(4)] assms(2) p by (simp add: Let_def)
  have "set (po_Finalizers p) = {finalizerName} \<longleftrightarrow> po_Finalizers ?q = []"
    using p(2) by (auto simp: filter_empty_conv)
  then show "life (apply_writes a env h calls (Some p)) =
      (if set (po_Finalizers p) = {finalizerName} then Absent else Released)"
    using calls assms(3) p(1)
    by (cases rule: documented_updateE [OF assms(1), of p ?q]) (auto simp add: life_def)
qed

theorem reconcile_progress_witness:
  "\<exists>out rc' calls. run_state (Reconcile (policy_env doomed) running_reconciler [] []) [] = ((out, rc'), calls) \<and>
     life (apply_writes sample_server (policy_env doomed) [] calls (Some doomed)) = Absent"
proof -
  obtain out rc' calls where run:
    "run_state (Reconcile (policy_env doomed) running_reconciler [] []) [] = ((out, rc'), [] @ calls)"
    by (metis append_Nil prod.collapse)
  have "life (apply_writes sample_server (policy_env doomed) [] calls (Some doomed)) = Absent"
    using reconcile_progress [OF sample_documented get_policy_env _ run]
    by (simp add: doomed_def sample_policy_def life_def)
  with run show ?thesis by auto
qed

text \<open>
  C8. The stored status always has the shape the operator promises, after any history of edits,
  deletions and reconcile cycles from an empty cluster: the phase is empty, Active or Paused and
  never Degraded or Error, at most 500 findings are kept and all of them come from log collection,
  no failed resource, remediation, alert or workflow is ever reported, each condition is one of
  the operator's four and appears once, the next scan is 30 to 60 seconds after the last, and a
  scanned policy is Ready. As long as no user edits the operator's finalizer, a scanned policy
  also carries it unless it is being deleted.
\<close>
theorem stored_status_well_formed:
  assumes "reachable empty_cluster (cluster_moves a W) c" and "cu_policy c = Some p"
  shows "status_ok (po_Status p) \<and>
    (UserForce \<notin> W \<longrightarrow> st_LastScanTime (po_Status p) \<noteq> None \<longrightarrow> protected p)"
  using stored_status.inv_reachable [OF assms(1)] assms(2) by (simp add: stored_ok_def)

lemma scan_writes_report:
  assumes "active_policy p" and "rc_Telemetry rc = Some tel"
  shows "\<exists>q c. cluster_step sample_server Operator \<lparr>cu_policy = Some p, cu_reconciler = rc\<rparr> c \<and>
    cu_policy c = Some q \<and> st_LastScanTime (po_Status q) \<noteq> None"
proof -
  obtain out rc' calls where run:
    "run_state (Reconcile (policy_env p) rc [] []) [] = ((out, rc'), calls)" by (metis prod.collapse)
  obtain findings now q cs where q: "calls = [] @ GetPolicy [] [] # cs @ [UpdateStatus q]"
    "list_all (scan_call (policy_env p) rc p) cs" "cycle_report p findings now q"
    using reconcile_cycle_report [OF get_policy_env assms run] by blast
  have "apply_writes sample_server (policy_env p) [] calls (Some p) = Some (p\<lparr>po_Status := po_Status q\<rparr>)"
    using q(2) by (simp add: q(1) apply_writes_append apply_writes_scan documented_status [OF sample_documented])
  moreover have "st_LastScanTime (po_Status q) \<noteq> None" using q(3) by (auto simp: cycle_report_def)
  ultimately show ?thesis using reconcile_step_current [OF run, of sample_server] by fastforce
qed

theorem stored_status_well_formed_witness:
  "\<exists>p. status_ok (po_Status p) \<and> st_LastScanTime (po_Status p) \<noteq> None \<and> protected p"
proof -
  let ?W = "{User, Operator}"
  let ?c = "\<lambda>s. \<lparr>cu_policy = s, cu_reconciler = running_reconciler\<rparr>"
  have "cluster_step sample_server User (?c None) (?c (Some sample_policy))"
    using cs_create [of "?c None" sample_policy] by (simp add: sample_policy_def)
  then have move: "cluster_moves sample_server ?W (?c None) (?c (Some sample_policy))"
    using sample_documented by (auto simp: cluster_moves_def)
  have "reachable empty_cluster (cluster_moves sample_server ?W) (?c None)"
    by (rule reach_init) (simp add: empty_cluster_def)
  from reach_step [OF this move]
  have "reachable empty_cluster (cluster_moves sample_server ?W) (?c (Some sample_policy))" .
  note start = this
  obtain q c where scanned: "cluster_step sample_server Operator (?c (Some sample_policy)) c"
    "cu_policy c = Some q" "st_LastScanTime (po_Status q) \<noteq> None"
    using scan_writes_report [OF sample_active running_telemetry] by blast
  have "cluster_moves sample_server ?W (?c (Some sample_policy)) c"
    using scanned(1) sample_documented by (auto simp: cluster_moves_def)
  from reach_step [OF start this]
  have "reachable empty_cluster (cluster_moves sample_server ?W) c" .
  from stored_status_well_formed [OF this scanned(2)] scanned(3) show ?thesis by auto
qed

end
