(* ===== verification/Main_Flags.thy ===== *)
theory Main_Flags
  imports Go_Prelude
begin

text \<open>
  The command line of main.go: the three flags the program defines with their defaults, read
  the way package flag reads them, and the manager options made of them. The libraries the
  program links define flags of their own (the logger's, the kubeconfig path); which names those
  are, whether they take a value and which values they accept is the argument \<open>other\<close>.
\<close>

section \<open>Reading one word\<close>

datatype flag_word = Stop | BadSyntax | Flag string "string option"

text \<open>
  A word with one or two dashes names a flag, with its value after an equals sign; anything
  else, a single dash and the terminator \<^verbatim>\<open>--\<close> end the flags.
\<close>

definition read_flag :: "string \<Rightarrow> flag_word" where
  "read_flag s =
     (if length s < 2 \<or> hd s \<noteq> CHR ''-'' then Stop
      else if s = ''--'' then Stop
      else let name = (if s ! 1 = CHR ''-'' then drop 2 s else drop 1 s)
           in if name = [] \<or> hd name = CHR ''-'' \<or> hd name = CHR ''='' then BadSyntax
              else Flag (takeWhile (\<lambda>c. c \<noteq> CHR ''='') name)
                (if CHR ''='' \<in> set name
                 then Some (tl (dropWhile (\<lambda>c. c \<noteq> CHR ''='') name)) else None))"

text \<open>\<^verbatim>\<open>strconv.ParseBool\<close>.\<close>

definition parse_bool :: "string \<Rightarrow> bool option" where
  "parse_bool s =
     (if s \<in> {''1'', ''t'', ''T'', ''true'', ''TRUE'', ''True''} then Some True
      else if s \<in> {''0'', ''f'', ''F'', ''false'', ''FALSE'', ''False''} then Some False
      else None)"

section \<open>The flags of the program\<close>

record flags =
  fl_metricsAddr :: string
  fl_probeAddr :: string
  fl_enableLeaderElection :: bool

definition default_flags :: flags where
  "default_flags =
     \<lparr>fl_metricsAddr = '':8080'', fl_probeAddr = '':8081'', fl_enableLeaderElection = False\<rparr>"

datatype flag_stop = SyntaxError | NotDefined string | NeedsArgument string | InvalidValue string | Help

type_synonym other_flags = "string \<Rightarrow> (bool \<times> (string \<Rightarrow> bool)) option"

text \<open>Whether a flag is defined, and whether it is a boolean flag.\<close>

definition flag_kind :: "other_flags \<Rightarrow> string \<Rightarrow> bool option" where
  "flag_kind other name =
     (if name \<in> {''metrics-bind-address'', ''health-probe-bind-address''} then Some False
      else if name = ''leader-elect'' then Some True
      else map_option fst (other name))"

definition set_flag :: "other_flags \<Rightarrow> string \<Rightarrow> string \<Rightarrow> flags \<Rightarrow> flag_stop + flags" where
  "set_flag other name value fl =
     (if name = ''metrics-bind-address'' then Inr (fl\<lparr>fl_metricsAddr := value\<rparr>)
      else if name = ''health-probe-bind-address'' then Inr (fl\<lparr>fl_probeAddr := value\<rparr>)
      else if name = ''leader-elect'' then
        (case parse_bool value of
           None \<Rightarrow> Inl (InvalidValue name)
         | Some b \<Rightarrow> Inr (fl\<lparr>fl_enableLeaderElection := b\<rparr>))
      else (case other name of
          None \<Rightarrow> Inr fl
        | Some (isBool, accepts) \<Rightarrow> if accepts value then Inr fl else Inl (InvalidValue name)))"

text \<open>\<^verbatim>\<open>flag.Parse\<close>: flag by flag, up to the first word that is none or the first error.\<close>

fun parse_flags :: "other_flags \<Rightarrow> string list \<Rightarrow> flags \<Rightarrow> flag_stop + flags" where
  "parse_flags other [] fl = Inr fl"
| "parse_flags other (s # args) fl =
     (case read_flag s of
        Stop \<Rightarrow> Inr fl
      | BadSyntax \<Rightarrow> Inl SyntaxError
      | Flag name given \<Rightarrow>
          (case flag_kind other name of
             None \<Rightarrow> Inl (if name = ''help'' \<or> name = ''h'' then Help else NotDefined name)
           | Some True \<Rightarrow>
               (case set_flag other name (case given of None \<Rightarrow> ''true'' | Some v \<Rightarrow> v) fl of
                  Inl e \<Rightarrow> Inl e
                | Inr fl' \<Rightarrow> parse_flags other args fl')
           | Some False \<Rightarrow>
               (case given of
                  Some v \<Rightarrow>
                    (case set_flag other name v fl of
                       Inl e \<Rightarrow> Inl e
                     | Inr fl' \<Rightarrow> parse_flags other args fl')
                | None \<Rightarrow>
                    (case args of
                       [] \<Rightarrow> Inl (NeedsArgument name)
                     | v # rest \<Rightarrow>
                         (case set_flag other name v fl of
                            Inl e \<Rightarrow> Inl e
                          | Inr fl' \<Rightarrow> parse_flags other rest fl')))))"

section \<open>The manager options\<close>

record manager_options =
  mo_BindAddress :: string
  mo_HealthProbeBindAddress :: string
  mo_LeaderElection :: bool
  mo_LeaderElectionID :: string

definition manager_options_for :: "flags \<Rightarrow> manager_options" where
  "manager_options_for fl =
     \<lparr>mo_BindAddress = fl_metricsAddr fl, mo_HealthProbeBindAddress = fl_probeAddr fl,
      mo_LeaderElection = fl_enableLeaderElection fl,
      mo_LeaderElectionID = ''12345678.kubevirt.io''\<rparr>"

section \<open>Lemmas\<close>

text \<open>A word \<^verbatim>\<open>--name=value\<close> gives its name and its value, whatever the value holds.\<close>

lemma cut_at:
  "c \<notin> set xs \<Longrightarrow> takeWhile (\<lambda>x. x \<noteq> c) (xs @ c # ys) = xs"
  "c \<notin> set xs \<Longrightarrow> dropWhile (\<lambda>x. x \<noteq> c) (xs @ c # ys) = c # ys"
  "c \<notin> set xs \<Longrightarrow> takeWhile (\<lambda>x. x \<noteq> c) xs = xs"
  by (induction xs) auto

lemma read_flag_value:
  assumes "name = x # xs" "CHR ''='' \<notin> set name" "x \<noteq> CHR ''-''"
  shows "read_flag (''--'' @ name @ ''='' @ v) = Flag name (Some v)"
proof -
  have "x \<noteq> CHR ''=''" using assms(1,2) by (metis list.set_intros(1))
  then show ?thesis
    using cut_at(1,2) [OF assms(2), of v] assms(1,3) unfolding read_flag_def by simp
qed

text \<open>A word \<^verbatim>\<open>-name\<close> gives its name without a value.\<close>

lemma read_flag_plain:
  assumes "name = x # xs" "CHR ''='' \<notin> set name" "x \<noteq> CHR ''-''"
  shows "read_flag (CHR ''-'' # name) = Flag name None"
proof -
  have x: "x \<noteq> CHR ''=''" using assms(1,2) by (metis list.set_intros(1))
  show ?thesis
    using cut_at(3) [OF assms(2)] assms(2,3) x unfolding read_flag_def assms(1) by simp
qed

lemma parse_bool_str [simp]: "parse_bool (bool_str b) = Some b"
  by (simp add: parse_bool_def bool_str_def)

lemma read_own_flags:
  "read_flag (''--metrics-bind-address='' @ a) = Flag ''metrics-bind-address'' (Some a)"
  "read_flag (''--health-probe-bind-address='' @ b) = Flag ''health-probe-bind-address'' (Some b)"
  "read_flag (''--leader-elect='' @ l) = Flag ''leader-elect'' (Some l)"
  "read_flag ''-metrics-bind-address'' = Flag ''metrics-bind-address'' None"
  "read_flag ''-health-probe-bind-address'' = Flag ''health-probe-bind-address'' None"
  "read_flag ''-leader-elect'' = Flag ''leader-elect'' None"
  using read_flag_value [OF refl, of "CHR ''m''" "''etrics-bind-address''" a]
    read_flag_value [OF refl, of "CHR ''h''" "''ealth-probe-bind-address''" b]
    read_flag_value [OF refl, of "CHR ''l''" "''eader-elect''" l]
    read_flag_plain [OF refl, of "CHR ''m''" "''etrics-bind-address''"]
    read_flag_plain [OF refl, of "CHR ''h''" "''ealth-probe-bind-address''"]
    read_flag_plain [OF refl, of "CHR ''l''" "''eader-elect''"]
  by simp_all

section \<open>Property\<close>

text \<open>
  C31. The command line arrives in the manager options: with the three flags set, to any two
  addresses and either truth value, in the form with an equals sign or with the addresses as
  words of their own, the manager gets exactly those values, whatever flags the linked libraries
  define; without arguments it gets the default ports and no leader election.
\<close>
theorem flags_reach_manager:
  "map_sum id manager_options_for (parse_flags other
      [''--metrics-bind-address='' @ a, ''--health-probe-bind-address='' @ b,
       ''--leader-elect='' @ bool_str l] fl) =
     Inr \<lparr>mo_BindAddress = a, mo_HealthProbeBindAddress = b, mo_LeaderElection = l,
          mo_LeaderElectionID = ''12345678.kubevirt.io''\<rparr> \<and>
   map_sum id manager_options_for (parse_flags other
      [''-metrics-bind-address'', a, ''-health-probe-bind-address'', b, ''-leader-elect''] fl) =
     Inr \<lparr>mo_BindAddress = a, mo_HealthProbeBindAddress = b, mo_LeaderElection = True,
          mo_LeaderElectionID = ''12345678.kubevirt.io''\<rparr> \<and>
   map_sum id manager_options_for (parse_flags other [] default_flags) =
     Inr \<lparr>mo_BindAddress = '':8080'', mo_HealthProbeBindAddress = '':8081'',
          mo_LeaderElection = False, mo_LeaderElectionID = ''12345678.kubevirt.io''\<rparr>"
  by (simp add: read_own_flags flag_kind_def set_flag_def manager_options_for_def
      default_flags_def parse_bool_def [of "''true''"] del: append.simps)

end
