(* ===== verification/Operator_Main.thy ===== *)
theory Operator_Main
  imports Policy_Lifecycle Main_Flags
begin

text \<open>
  main.go: the package initialisation, which registers the types of client-go and of the
  operator's own group with the scheme, the command line, the start-up sequence up to the
  manager's run, and what the reconciler it builds can do. The manager and the client libraries
  are parameters; the logger has no effect on the sequence.
\<close>

section \<open>The registered types\<close>

record group_version =
  gv_Group :: string
  gv_Version :: string

definition GroupVersion :: group_version where
  "GroupVersion = \<lparr>gv_Group = ''sre.kubevirt.io'', gv_Version = ''v1alpha1''\<rparr>"

datatype go_type = T_SREGlobalConfig | T_SREGlobalConfigList | T_SREPolicy | T_SREPolicyList

text \<open>
  The calls of \<^verbatim>\<open>SchemeBuilder.Register\<close>, in the order in which Go initialises the
  files of the package.
\<close>

definition register_global_config :: "go_type list \<Rightarrow> go_type list" where
  "register_global_config reg = reg @ [T_SREGlobalConfig, T_SREGlobalConfigList]"

definition register_policy :: "go_type list \<Rightarrow> go_type list" where
  "register_policy reg = reg @ [T_SREPolicy, T_SREPolicyList]"

definition SchemeBuilder :: "group_version \<times> go_type list" where
  "SchemeBuilder = (GroupVersion, register_policy (register_global_config []))"

section \<open>Start-up\<close>

text \<open>
  \<^verbatim>\<open>SetupWithManager\<close> builds a controller for one type, without any event filter, and
  completes it with the reconciler.
\<close>

record controller_setup =
  ct_For :: go_type
  ct_Predicates :: "(sre_policy \<Rightarrow> sre_policy \<Rightarrow> bool) list"

record startup =
  su_clientgo_AddToScheme :: "err option"
  su_AddToScheme :: "group_version \<times> go_type list \<Rightarrow> err option"
  su_GetConfig :: "err option"
  su_NewManager :: "manager_options \<Rightarrow> err option"
  su_NewForConfig :: "err option"
  su_Complete :: "controller_setup \<Rightarrow> reconciler \<Rightarrow> err option"
  su_AddHealthzCheck :: "err option"
  su_AddReadyzCheck :: "err option"
  su_Start :: "reconciler \<Rightarrow> err option"

text \<open>
  How the program ends: a panic of \<^verbatim>\<open>utilruntime.Must\<close>, the exit of the flag
  package, exit with status 1 after logging a message, or the return of \<^verbatim>\<open>main\<close>.
\<close>

datatype exit_status = InitPanic err | FlagExit flag_stop | Exit1 string | Finished

fun exit_code :: "exit_status \<Rightarrow> int" where
  "exit_code (InitPanic e) = 2"
| "exit_code (FlagExit e) = (if e = Help then 0 else 2)"
| "exit_code (Exit1 msg) = 1"
| "exit_code Finished = 0"

definition init_scheme :: "startup \<Rightarrow> err option" where
  "init_scheme su =
     (if su_clientgo_AddToScheme su \<noteq> None then su_clientgo_AddToScheme su
      else su_AddToScheme su SchemeBuilder)"

definition main_reconciler :: reconciler where
  "main_reconciler =
     \<lparr>rc_Telemetry = None, rc_KubeClient = True, rc_promClient = None, rc_lastPromConfig = [],
      rc_lastOTelEndpoint = []\<rparr>"

definition SetupWithManager :: "startup \<Rightarrow> reconciler \<Rightarrow> err option" where
  "SetupWithManager su rc = su_Complete su \<lparr>ct_For = T_SREPolicy, ct_Predicates = []\<rparr> rc"

text \<open>The reconciler handed to the manager, if the start-up gets that far, and the exit.\<close>

definition main_run :: "other_flags \<Rightarrow> string list \<Rightarrow> startup \<Rightarrow> reconciler option \<times> exit_status" where
  "main_run other args su =
     (case parse_flags other args default_flags of
        Inl e \<Rightarrow> (None, FlagExit e)
      | Inr fl \<Rightarrow>
          if su_GetConfig su \<noteq> None then (None, Exit1 ''unable to get kubeconfig'')
          else if su_NewManager su (manager_options_for fl) \<noteq> None
          then (None, Exit1 ''unable to start manager'')
          else if su_NewForConfig su \<noteq> None then (None, Exit1 ''unable to create kubernetes client'')
          else if SetupWithManager su main_reconciler \<noteq> None then (None, Exit1 ''unable to create controller'')
          else if su_AddHealthzCheck su \<noteq> None then (None, Exit1 ''unable to set up health check'')
          else if su_AddReadyzCheck su \<noteq> None then (None, Exit1 ''unable to set up ready check'')
          else (Some main_reconciler,
            if su_Start su main_reconciler \<noteq> None then Exit1 ''problem running manager''
            else Finished))"

definition program :: "other_flags \<Rightarrow> string list \<Rightarrow> startup \<Rightarrow> reconciler option \<times> exit_status" where
  "program other args su =
     (case init_scheme su of
        Some e \<Rightarrow> (None, InitPanic e)
      | None \<Rightarrow> main_run other args su)"

text \<open>
  The program exits with status 0 only when it printed its usage or when the reconciler ran and
  the manager stopped without an error; it never runs another reconciler.
\<close>

lemma program_result:
  "case program other args su of (started, e) \<Rightarrow>
     (started = None \<or> started = Some main_reconciler) \<and>
     (exit_code e = 0 \<longleftrightarrow> e = FlagExit Help \<or> started = Some main_reconciler \<and>
        su_Start su main_reconciler = None)"
  by (auto simp: program_def main_run_def split: option.split sum.split)

definition started :: "reconciler \<Rightarrow> bool" where
  "started rc \<longleftrightarrow> (\<exists>other args su. fst (program other args su) = Some rc)"

definition working_startup :: startup where
  "working_startup =
     \<lparr>su_clientgo_AddToScheme = None, su_AddToScheme = (\<lambda>b. None), su_GetConfig = None,
      su_NewManager = (\<lambda>mo. None), su_NewForConfig = None, su_Complete = (\<lambda>ct rc. None),
      su_AddHealthzCheck = None, su_AddReadyzCheck = None, su_Start = (\<lambda>rc. None)\<rparr>"

lemma started_iff: "started rc \<longleftrightarrow> rc = main_reconciler"
proof
  assume "started rc"
  then show "rc = main_reconciler"
    by (auto simp: started_def program_def main_run_def split: if_splits option.splits sum.splits)
next
  assume "rc = main_reconciler"
  then show "started rc" unfolding started_def
    by (intro exI [of _ "\<lambda>n. None"] exI [of _ "[]"] exI [of _ working_startup])
      (simp add: program_def init_scheme_def main_run_def SetupWithManager_def working_startup_def)
qed

section \<open>The operator as started\<close>

text \<open>Without a provider no cycle changes the reconciler.\<close>

lemma no_telemetry_step:
  assumes "rc_Telemetry rc = None"
  shows "snd (fst (run_state (Reconcile env rc ns name) h)) = rc"
proof (cases "en_get_policy env h ns name")
  case (Inl e)
  then show ?thesis by (simp add: Reconcile_missing)
next
  case (Inr policy)
  with assms show ?thesis
    by (simp add: Reconcile_found after_get_def split_beta split: option.split)
qed

interpretation operator_state: inductive_invariant started reconcile_step "\<lambda>rc. rc = main_reconciler"
proof
  show "started s \<Longrightarrow> s = main_reconciler" for s by (simp add: started_iff)
  show "s = main_reconciler \<Longrightarrow> reconcile_step s t \<Longrightarrow> t = main_reconciler" for s t
    using no_telemetry_step [of main_reconciler]
    by (auto simp: reconcile_step_def main_reconciler_def)
qed

text \<open>
  C4. The operator as main.go starts it never scans: it is built without a telemetry
  provider, only a scan could install one, and so after any number of cycles the reconciler is
  unchanged and every cycle of an active policy panics right after reading the policy.
\<close>
theorem operator_never_scans:
  assumes "reachable started reconcile_step rc"
    and "en_get_policy env h ns name = Inr policy" and "active_policy policy"
  shows "run_state (Reconcile env rc ns name) h = ((Panicked, rc), h @ [GetPolicy ns name])"
proof -
  have "rc_Telemetry rc = None"
    using operator_state.inv_reachable [OF assms(1)] by (simp add: main_reconciler_def)
  with assms(2,3) show ?thesis by (simp add: Reconcile_found after_get_active)
qed

theorem operator_never_scans_witness:
  "run_state (Reconcile (policy_env sample_policy) main_reconciler ''sre'' ''vms'') [] =
     ((Panicked, main_reconciler), [GetPolicy ''sre'' ''vms''])"
proof -
  have "reachable started reconcile_step main_reconciler"
    by (rule reach_init) (simp add: started_iff)
  from operator_never_scans [OF this get_policy_env sample_active] show ?thesis by simp
qed

section \<open>The operator in a cluster\<close>

text \<open>A cluster without policies in which the operator has just been started.\<close>

definition deployed :: "cluster \<Rightarrow> bool" where
  "deployed c \<longleftrightarrow> cu_policy c = None \<and> started (cu_reconciler c)"

definition untouched_status :: "sre_policy_status \<Rightarrow> bool" where
  "untouched_status st \<longleftrightarrow> st\<lparr>st_Phase := []\<rparr> = empty_status \<and> st_Phase st \<in> {[], ''Paused''}"

definition deployed_inv :: "cluster \<Rightarrow> bool" where
  "deployed_inv c \<longleftrightarrow> cu_reconciler c = main_reconciler \<and>
     (\<forall>p. cu_policy c = Some p \<longrightarrow> untouched_status (po_Status p))"

lemma untouched_paused: "untouched_status st \<Longrightarrow> untouched_status (st\<lparr>st_Phase := ''Paused''\<rparr>)"
  by (simp add: untouched_status_def)

lemma cached_untouched:
  assumes "cached_as s p" and "untouched_status (po_Status s)"
  shows "po_Status p = po_Status s"
proof -
  have "st_Conditions ((po_Status s)\<lparr>st_Phase := []\<rparr>) = st_Conditions empty_status"
    using assms(2) by (simp only: untouched_status_def)
  then have "st_Conditions (po_Status s) = []" by (simp add: empty_status_def)
  with assms(1) show ?thesis by (auto simp: cached_as_def)
qed

lemma step_keeps_untouched:
  assumes doc: "documented a" and step: "cluster_step a who c c'" and inv: "deployed_inv c"
  shows "deployed_inv c'"
  using step
proof cases
  case (cs_create p)
  with inv show ?thesis by (simp add: deployed_inv_def untouched_status_def empty_status_def)
next
  case (cs_edit s p)
  with inv show ?thesis
    by (cases rule: documented_updateE [OF doc, of s p]) (auto simp: deployed_inv_def)
next
  case (cs_delete s t)
  with inv show ?thesis by (simp add: deployed_inv_def)
next
  case (cs_remove s)
  with inv show ?thesis by (simp add: deployed_inv_def)
next
  case (cs_reconcile env h ns name out rc' calls)
  have rc: "cu_reconciler c = main_reconciler" using inv by (simp add: deployed_inv_def)
  have run: "run_state (Reconcile env main_reconciler ns name) h = ((out, rc'), h @ calls)"
    using cs_reconcile rc by simp
  have none: "rc_Telemetry main_reconciler = None" by (simp add: main_reconciler_def)
  have rc': "rc' = main_reconciler" using no_telemetry_step [OF none, of env ns name h] run by simp
  have "untouched_status (po_Status q)" if q: "apply_writes a env h calls (cu_policy c) = Some q" for q
  proof (cases "cu_policy c")
    case None
    with reconcile_absent [OF _ run, of a] cs_reconcile q show ?thesis by simp
  next
    case (Some s)
    have s: "untouched_status (po_Status s)" using inv Some by (simp add: deployed_inv_def)
    obtain p where p: "cached_as s p" "short_effect a s p (apply_writes a env h calls (Some s))"
      using reconcile_no_telemetry_reads [OF _ none run, of s a] cs_reconcile Some by auto
    from short_keeps [OF doc p(2,1)] q Some show ?thesis
      using s untouched_paused [OF s] cached_untouched [OF p(1) s] by auto
  qed
  with cs_reconcile rc' show ?thesis by (simp add: deployed_inv_def)
qed

interpretation deployment: inductive_invariant deployed "cluster_moves a W" deployed_inv for a W
proof
  show "deployed c \<Longrightarrow> deployed_inv c" for c
    by (simp add: deployed_def deployed_inv_def started_iff)
  show "deployed_inv c \<Longrightarrow> cluster_moves a W c c' \<Longrightarrow> deployed_inv c'" for c c'
    unfolding cluster_moves_def using step_keeps_untouched by blast
qed

text \<open>
  C5. The deployed operator reports nothing. In a cluster where the operator runs as main.go starts
  it, after any history of creations, edits of any field but the status, deletions and reconcile
  cycles, whichever of the actors act, the status of a policy
  is still the empty one it was created with, except that the phase may say Paused: no finding,
  count, condition or scan time is ever written.
\<close>
theorem deployed_operator_reports_nothing:
  assumes "reachable deployed (cluster_moves a W) c" and "cu_policy c = Some p"
  shows "po_Status p = empty_status\<lparr>st_Phase := st_Phase (po_Status p)\<rparr> \<and>
    st_Phase (po_Status p) \<in> {[], ''Paused''} \<and> cu_reconciler c = main_reconciler"
proof -
  have inv: "untouched_status (po_Status p)" "cu_reconciler c = main_reconciler"
    using deployment.inv_reachable [OF assms(1)] assms(2) by (simp_all add: deployed_inv_def)
  then have "(po_Status p)\<lparr>st_Phase := []\<rparr> = empty_status" by (simp add: untouched_status_def)
  then have "po_Status p = empty_status\<lparr>st_Phase := st_Phase (po_Status p)\<rparr>"
    by (metis sre_policy_status.surjective sre_policy_status.update_convs(11))
  with inv show ?thesis by (simp add: untouched_status_def)
qed

theorem deployed_operator_reports_nothing_witness:
  "\<exists>c p. cu_policy (c :: cluster) = Some p \<and> finalizerName \<in> set (po_Finalizers p) \<and>
     po_Status p = empty_status\<lparr>st_Phase := st_Phase (po_Status p)\<rparr>"
proof -
  let ?c = "\<lambda>s. \<lparr>cu_policy = s, cu_reconciler = main_reconciler\<rparr>"
  let ?q = "sample_policy\<lparr>po_Generation := 4\<rparr>"
  have "reachable deployed (cluster_moves sample_server UNIV) (?c None)"
    by (rule reach_init) (simp add: deployed_def started_iff)
  moreover have "cluster_moves sample_server UNIV (?c None) (?c (Some newborn))"
    using cs_create [of "?c None" newborn] sample_documented
    by (auto simp: cluster_moves_def newborn_def sample_policy_def)
  ultimately have "reachable deployed (cluster_moves sample_server UNIV) (?c (Some newborn))"
    by (rule reach_step)
  moreover have "cluster_moves sample_server UNIV (?c (Some newborn)) (?c (Some ?q))"
    using adopt_step [of newborn sample_server main_reconciler] newborn_adopted sample_documented
    by (auto simp: cluster_moves_def newborn_def sample_policy_def)
  ultimately have "reachable deployed (cluster_moves sample_server UNIV) (?c (Some ?q))"
    by (rule reach_step)
  from deployed_operator_reports_nothing [OF this]
  have "po_Status ?q = empty_status\<lparr>st_Phase := st_Phase (po_Status ?q)\<rparr>"
    by (simp only: cluster.select_convs)
  moreover have "finalizerName \<in> set (po_Finalizers ?q)" by (simp add: sample_policy_def)
  moreover have "cu_policy (?c (Some ?q)) = Some ?q" by simp
  ultimately show ?thesis by blast
qed

end
