(* ===== verification/Deep_Copy.thy ===== *)
theory Deep_Copy
  imports Status_Helpers
begin

text \<open>
  The hand-written copy functions of api/v1alpha1 (zz_generated.deepcopy.go and the end of
  sreglobalconfig_types.go) over an explicit heap, because what they get wrong is sharing: the
  structs are copied field by field, so slices and pointers of the specification and the status
  still point to the original's arrays. A slice is the number of its backing array and its
  length, a pointer the number of a cell; the heap holds the arrays of the two element types the
  controller writes or appends to and the cells of the deletion timestamps. Of the metadata the
  fields the program reads are modelled. Its copy is library code and a parameter, with the
  library's documented contract: equal contents in newly allocated arrays and cells.
\<close>

section \<open>Objects with references\<close>

record slice =
  sl_array :: nat
  sl_len :: nat

record heap =
  hs_next :: nat
  hs_strings :: "nat \<Rightarrow> string list"
  hs_conditions :: "nat \<Rightarrow> status_condition list"
  hs_times :: "nat \<Rightarrow> time"

record meta_obj =
  me_Name :: string
  me_Namespace :: string
  me_Finalizers :: "slice option"
  me_DeletionTimestamp :: "nat option"
  me_Generation :: int64

record spec_obj =
  so_TargetNamespaces :: "slice option"
  so_Checks :: "slice option"
  so_Paused :: bool
  so_OCPCluster :: "nat option"
  so_Prometheus :: "nat option"
  so_LogCollection :: "nat option"
  so_Notifications :: "nat option"

record status_obj =
  sb_Findings :: "slice option"
  sb_ActiveWorkflows :: "slice option"
  sb_LastScanTime :: "nat option"
  sb_NextScanTime :: "nat option"
  sb_TotalChecks :: int32
  sb_RemediationsApplied :: int32
  sb_ObservedGeneration :: int64
  sb_HealthyCount :: int32
  sb_DegradedCount :: int32
  sb_FailedCount :: int32
  sb_Phase :: string
  sb_Conditions :: "slice option"
  sb_OCPClusterHealthy :: "nat option"
  sb_FiringAlertCount :: int32
  sb_FiringAlertNames :: "slice option"
  sb_ObservabilityEndpointReachable :: "nat option"

record policy_obj =
  pb_Meta :: meta_obj
  pb_Spec :: spec_obj
  pb_Status :: status_obj

text \<open>A global configuration: its specification is four pointers.\<close>

record config_spec_obj =
  cp_Observability :: "nat option"
  cp_Retention :: "nat option"
  cp_Defaults :: "nat option"
  cp_Prometheus :: "nat option"

record config_status_obj =
  cu_Phase :: string
  cu_Conditions :: "slice option"

record config_obj =
  cb_Meta :: meta_obj
  cb_Spec :: config_spec_obj
  cb_Status :: config_status_obj

text \<open>A list object: its metadata and its items; \<open>None\<close> is a nil slice.\<close>

record list_meta_obj =
  lm_ResourceVersion :: string
  lm_Continue :: string
  lm_RemainingItemCount :: "nat option"

record 'a list_obj =
  li_ListMeta :: list_meta_obj
  li_Items :: "'a list option"

text \<open>What a slice shows; a nil slice shows nothing.\<close>

definition view :: "(nat \<Rightarrow> 'a list) \<Rightarrow> slice option \<Rightarrow> 'a list" where
  "view arrays s = (case s of None \<Rightarrow> [] | Some sl \<Rightarrow> take (sl_len sl) (arrays (sl_array sl)))"

type_synonym meta_copy = "heap \<Rightarrow> meta_obj \<Rightarrow> meta_obj \<times> heap"
type_synonym list_meta_copy = "heap \<Rightarrow> list_meta_obj \<Rightarrow> list_meta_obj \<times> heap"

section \<open>The copies\<close>

definition SREPolicy_DeepCopyInto :: "meta_copy \<Rightarrow> policy_obj \<Rightarrow> heap \<Rightarrow> policy_obj \<times> heap" where
  "SREPolicy_DeepCopyInto copyMeta in' h =
     (let out = in';
          (m, h') = copyMeta h (pb_Meta in')
      in (out\<lparr>pb_Meta := m\<rparr>, h'))"

definition SREPolicy_DeepCopy :: "meta_copy \<Rightarrow> policy_obj option \<Rightarrow> heap \<Rightarrow> policy_obj option \<times> heap" where
  "SREPolicy_DeepCopy copyMeta in' h =
     (case in' of
        None \<Rightarrow> (None, h)
      | Some p \<Rightarrow> (let (out, h') = SREPolicy_DeepCopyInto copyMeta p h in (Some out, h')))"

definition SREGlobalConfig_DeepCopyInto :: "meta_copy \<Rightarrow> config_obj \<Rightarrow> heap \<Rightarrow> config_obj \<times> heap" where
  "SREGlobalConfig_DeepCopyInto copyMeta in' h =
     (let out = in';
          (m, h') = copyMeta h (cb_Meta in');
          out1 = out\<lparr>cb_Meta := m\<rparr>
      in (out1\<lparr>cb_Spec := cb_Spec in', cb_Status := cb_Status in'\<rparr>, h'))"

definition SREGlobalConfig_DeepCopy :: "meta_copy \<Rightarrow> config_obj option \<Rightarrow> heap
    \<Rightarrow> config_obj option \<times> heap" where
  "SREGlobalConfig_DeepCopy copyMeta in' h =
     (case in' of
        None \<Rightarrow> (None, h)
      | Some p \<Rightarrow> (let (out, h') = SREGlobalConfig_DeepCopyInto copyMeta p h in (Some out, h')))"

text \<open>The loop over the items, which copies each with the item's own copy function.\<close>

fun copy_items :: "('a \<Rightarrow> heap \<Rightarrow> 'a \<times> heap) \<Rightarrow> 'a list \<Rightarrow> heap \<Rightarrow> 'a list \<times> heap" where
  "copy_items copyItem [] h = ([], h)"
| "copy_items copyItem (p # ps) h =
     (let (q, h1) = copyItem p h;
          (qs, h2) = copy_items copyItem ps h1
      in (q # qs, h2))"

definition list_DeepCopyInto :: "list_meta_copy \<Rightarrow> ('a \<Rightarrow> heap \<Rightarrow> 'a \<times> heap) \<Rightarrow> 'a list_obj
    \<Rightarrow> heap \<Rightarrow> 'a list_obj \<times> heap" where
  "list_DeepCopyInto copyListMeta copyItem in' h =
     (let out = in';
          (m, h1) = copyListMeta h (li_ListMeta in');
          out1 = out\<lparr>li_ListMeta := m\<rparr>
      in (case li_Items in' of
            None \<Rightarrow> (out1, h1)
          | Some ps \<Rightarrow> (let (qs, h2) = copy_items copyItem ps h1 in (out1\<lparr>li_Items := Some qs\<rparr>, h2))))"

definition SREPolicyList_DeepCopyInto :: "meta_copy \<Rightarrow> list_meta_copy \<Rightarrow> policy_obj list_obj \<Rightarrow> heap
    \<Rightarrow> policy_obj list_obj \<times> heap" where
  "SREPolicyList_DeepCopyInto copyMeta copyListMeta =
     list_DeepCopyInto copyListMeta (SREPolicy_DeepCopyInto copyMeta)"

definition SREPolicyList_DeepCopy :: "meta_copy \<Rightarrow> list_meta_copy \<Rightarrow> policy_obj list_obj option
    \<Rightarrow> heap \<Rightarrow> policy_obj list_obj option \<times> heap" where
  "SREPolicyList_DeepCopy copyMeta copyListMeta in' h =
     (case in' of
        None \<Rightarrow> (None, h)
      | Some l \<Rightarrow>
          (let (out, h') = SREPolicyList_DeepCopyInto copyMeta copyListMeta l h in (Some out, h')))"

definition SREGlobalConfigList_DeepCopyInto :: "meta_copy \<Rightarrow> list_meta_copy \<Rightarrow> config_obj list_obj
    \<Rightarrow> heap \<Rightarrow> config_obj list_obj \<times> heap" where
  "SREGlobalConfigList_DeepCopyInto copyMeta copyListMeta =
     list_DeepCopyInto copyListMeta (SREGlobalConfig_DeepCopyInto copyMeta)"

definition SREGlobalConfigList_DeepCopy :: "meta_copy \<Rightarrow> list_meta_copy \<Rightarrow> config_obj list_obj option
    \<Rightarrow> heap \<Rightarrow> config_obj list_obj option \<times> heap" where
  "SREGlobalConfigList_DeepCopy copyMeta copyListMeta in' h =
     (case in' of
        None \<Rightarrow> (None, h)
      | Some l \<Rightarrow>
          (let (out, h') = SREGlobalConfigList_DeepCopyInto copyMeta copyListMeta l h in (Some out, h')))"

text \<open>
  \<^verbatim>\<open>DeepCopyObject\<close> returns an interface value; the nil interface is \<open>None\<close>, and a
  typed nil pointer, which would not be equal to it, is excluded by the check.
\<close>

datatype runtime_object =
    PolicyObject policy_obj
  | PolicyListObject "policy_obj list_obj"
  | ConfigObject config_obj
  | ConfigListObject "config_obj list_obj"

definition SREPolicy_DeepCopyObject :: "meta_copy \<Rightarrow> policy_obj option \<Rightarrow> heap
    \<Rightarrow> runtime_object option \<times> heap" where
  "SREPolicy_DeepCopyObject copyMeta in' h =
     (case SREPolicy_DeepCopy copyMeta in' h of
        (Some c, h') \<Rightarrow> (Some (PolicyObject c), h')
      | (None, h') \<Rightarrow> (None, h'))"

definition SREPolicyList_DeepCopyObject :: "meta_copy \<Rightarrow> list_meta_copy \<Rightarrow> policy_obj list_obj option
    \<Rightarrow> heap \<Rightarrow> runtime_object option \<times> heap" where
  "SREPolicyList_DeepCopyObject copyMeta copyListMeta in' h =
     (case SREPolicyList_DeepCopy copyMeta copyListMeta in' h of
        (Some c, h') \<Rightarrow> (Some (PolicyListObject c), h')
      | (None, h') \<Rightarrow> (None, h'))"

definition SREGlobalConfig_DeepCopyObject :: "meta_copy \<Rightarrow> config_obj option \<Rightarrow> heap
    \<Rightarrow> runtime_object option \<times> heap" where
  "SREGlobalConfig_DeepCopyObject copyMeta in' h =
     (case SREGlobalConfig_DeepCopy copyMeta in' h of
        (Some c, h') \<Rightarrow> (Some (ConfigObject c), h')
      | (None, h') \<Rightarrow> (None, h'))"

definition SREGlobalConfigList_DeepCopyObject :: "meta_copy \<Rightarrow> list_meta_copy
    \<Rightarrow> config_obj list_obj option \<Rightarrow> heap \<Rightarrow> runtime_object option \<times> heap" where
  "SREGlobalConfigList_DeepCopyObject copyMeta copyListMeta in' h =
     (case SREGlobalConfigList_DeepCopy copyMeta copyListMeta in' h of
        (Some c, h') \<Rightarrow> (Some (ConfigListObject c), h')
      | (None, h') \<Rightarrow> (None, h'))"

section \<open>Writing a condition through a slice\<close>

fun cond_index :: "string \<Rightarrow> nat \<Rightarrow> status_condition list \<Rightarrow> nat option" where
  "cond_index ty i [] = None"
| "cond_index ty i (c # cs) = (if co_Type c = ty then Some i else cond_index ty (i + 1) cs)"

definition write_condition :: "string \<times> string \<times> string \<times> time \<Rightarrow> status_condition
    \<Rightarrow> status_condition" where
  "write_condition v c = (case v of (st, reason, message, now) \<Rightarrow>
     c\<lparr>co_Status := st, co_Reason := reason, co_Message := message, co_LastTransitionTime := now\<rparr>)"

text \<open>
  \<^verbatim>\<open>append\<close>: into the array when it has room beyond the slice, else into a new array,
  whose spare room nothing here depends on.
\<close>

definition append_condition :: "slice option \<Rightarrow> status_condition \<Rightarrow> heap \<Rightarrow> slice option \<times> heap" where
  "append_condition s c h =
     (case s of
        None \<Rightarrow> (Some \<lparr>sl_array = hs_next h, sl_len = 1\<rparr>,
          h\<lparr>hs_next := hs_next h + 1, hs_conditions := (hs_conditions h)(hs_next h := [c])\<rparr>)
      | Some sl \<Rightarrow>
          if sl_len sl < length (hs_conditions h (sl_array sl))
          then (Some (sl\<lparr>sl_len := sl_len sl + 1\<rparr>),
            h\<lparr>hs_conditions := (hs_conditions h)
              (sl_array sl := (hs_conditions h (sl_array sl))[sl_len sl := c])\<rparr>)
          else (Some \<lparr>sl_array = hs_next h, sl_len = sl_len sl + 1\<rparr>,
            h\<lparr>hs_next := hs_next h + 1,
              hs_conditions := (hs_conditions h)(hs_next h := view (hs_conditions h) s @ [c])\<rparr>))"

definition setCondition_heap :: "string \<Rightarrow> string \<times> string \<times> string \<times> time \<Rightarrow> status_obj \<Rightarrow> heap
    \<Rightarrow> status_obj \<times> heap" where
  "setCondition_heap ty v status h =
     (case (cond_index ty 0 (view (hs_conditions h) (sb_Conditions status)), sb_Conditions status) of
        (Some i, Some sl) \<Rightarrow> (status, h\<lparr>hs_conditions := (hs_conditions h)
          (sl_array sl := (hs_conditions h (sl_array sl))
            [i := write_condition v (hs_conditions h (sl_array sl) ! i)])\<rparr>)
      | _ \<Rightarrow>
          (let c = (case v of (st, reason, message, now) \<Rightarrow>
                 \<lparr>co_Type = ty, co_Status = st, co_Reason = reason, co_Message = message,
                  co_LastTransitionTime = now\<rparr>);
               (s', h') = append_condition (sb_Conditions status) c h
           in (status\<lparr>sb_Conditions := s'\<rparr>, h')))"

section \<open>Lemmas\<close>

lemma cond_index_None: "cond_index ty i cs = None \<longleftrightarrow> ty \<notin> condition_types cs"
  by (induction cs arbitrary: i) (auto simp: condition_types_def)

lemma cond_index_write:
  "cond_index ty i cs = Some k \<Longrightarrow> i \<le> k \<and> k - i < length cs \<and>
     cs[k - i := write_condition v (cs ! (k - i))] = set_condition_in ty v cs"
proof (induction cs arbitrary: i)
  case Nil
  then show ?case by simp
next
  case (Cons c cs)
  obtain st r m t where v: "v = (st, r, m, t)" by (cases v) auto
  show ?case
  proof (cases "co_Type c = ty")
    case True
    with Cons.prems v show ?thesis by (simp add: write_condition_def)
  next
    case False
    with Cons.prems Cons.IH [of "i + 1"] have IH: "i + 1 \<le> k" "k - (i + 1) < length cs"
      "cs[k - (i + 1) := write_condition v (cs ! (k - (i + 1)))] = set_condition_in ty v cs"
      by simp_all
    then have "k - i = Suc (k - (i + 1))" by simp
    with IH False v show ?thesis by simp
  qed
qed

text \<open>The array of a slice exists: it was allocated and is at least as long as the slice.\<close>

definition valid_slice :: "heap \<Rightarrow> slice option \<Rightarrow> bool" where
  "valid_slice h s = (case s of None \<Rightarrow> True
     | Some sl \<Rightarrow> sl_array sl < hs_next h \<and> sl_len sl \<le> length (hs_conditions h (sl_array sl)))"

text \<open>
  Writing a condition shows up as \<^const>\<open>set_condition_in\<close> through the slice written,
  and through any other status with the same slice exactly when the condition was there.
\<close>

lemma setCondition_heap_views:
  assumes valid: "valid_slice h (sb_Conditions status)"
    and run: "setCondition_heap ty v status h = (status', h')"
  defines "old \<equiv> view (hs_conditions h) (sb_Conditions status)"
  shows "view (hs_conditions h') (sb_Conditions status') = set_condition_in ty v old"
    and "view (hs_conditions h') (sb_Conditions status) =
      (if ty \<in> condition_types old then set_condition_in ty v old else old)"
proof -
  obtain st r m t where v: "v = (st, r, m, t)" by (cases v) auto
  have absent: "set_condition_in ty v cs = cs @ [\<lparr>co_Type = ty, co_Status = st, co_Reason = r,
      co_Message = m, co_LastTransitionTime = t\<rparr>]" if "ty \<notin> condition_types cs" for cs
    using that unfolding v by (induction cs) (auto simp: condition_types_def)
  have "view (hs_conditions h') (sb_Conditions status') = set_condition_in ty v old \<and>
    view (hs_conditions h') (sb_Conditions status) =
      (if ty \<in> condition_types old then set_condition_in ty v old else old)"
  proof (cases "sb_Conditions status")
    case None
    then show ?thesis using run absent [of "[]"]
      by (auto simp: setCondition_heap_def append_condition_def view_def old_def v
          condition_types_def)
  next
    case (Some sl)
    let ?a = "hs_conditions h (sl_array sl)"
    have old: "old = take (sl_len sl) ?a" and len: "sl_len sl \<le> length ?a" "sl_array sl < hs_next h"
      using Some valid by (auto simp: old_def view_def valid_slice_def)
    show ?thesis
    proof (cases "cond_index ty 0 old")
      case None
      then have "ty \<notin> condition_types old" by (simp add: cond_index_None)
      moreover have "take (Suc (sl_len sl)) (?a[sl_len sl := c]) = take (sl_len sl) ?a @ [c]"
        if "sl_len sl < length ?a" for c
        using that by (simp add: take_Suc_conv_app_nth)
      ultimately show ?thesis using run None len Some absent
        by (auto simp: setCondition_heap_def append_condition_def view_def v old Let_def
            split: if_splits)
    next
      case k: (Some k)
      from cond_index_write [OF k] have w: "k < length old"
        "old[k := write_condition v (old ! k)] = set_condition_in ty v old" by simp_all
      then have "take (sl_len sl) (?a[k := write_condition v (?a ! k)]) = set_condition_in ty v old"
        using len by (simp add: old take_update_swap)
      moreover have "ty \<in> condition_types old"
        using k cond_index_None [of ty 0 old] by auto
      moreover have "h' = h\<lparr>hs_conditions := (hs_conditions h)
          (sl_array sl := ?a[k := write_condition v (?a ! k)])\<rparr>" "status' = status"
        using run k Some by (auto simp: setCondition_heap_def old view_def)
      ultimately show ?thesis using Some by (simp add: view_def)
    qed
  qed
  then show "view (hs_conditions h') (sb_Conditions status') = set_condition_in ty v old"
    and "view (hs_conditions h') (sb_Conditions status) =
      (if ty \<in> condition_types old then set_condition_in ty v old else old)" by blast+
qed

section \<open>Properties\<close>

text \<open>A heap that only grows: arrays and cells that exist keep their contents.\<close>

definition heap_grows :: "heap \<Rightarrow> heap \<Rightarrow> bool" where
  "heap_grows h h' \<longleftrightarrow> hs_next h \<le> hs_next h' \<and> hs_conditions h' = hs_conditions h \<and>
     (\<forall>a < hs_next h. hs_strings h' a = hs_strings h a \<and> hs_times h' a = hs_times h a)"

lemma heap_grows_refl [simp]: "heap_grows h h"
  by (simp add: heap_grows_def)

lemma heap_grows_trans: "heap_grows h h1 \<Longrightarrow> heap_grows h1 h2 \<Longrightarrow> heap_grows h h2"
  by (auto simp: heap_grows_def)

text \<open>Allocated between two heaps.\<close>

definition fresh :: "heap \<Rightarrow> heap \<Rightarrow> nat \<Rightarrow> bool" where
  "fresh h h' a \<longleftrightarrow> hs_next h \<le> a \<and> a < hs_next h'"

lemma fresh_grows: "fresh h h1 a \<Longrightarrow> heap_grows h0 h \<Longrightarrow> heap_grows h1 h2 \<Longrightarrow> fresh h0 h2 a"
  by (auto simp: fresh_def heap_grows_def)

definition own_finalizers :: "heap \<Rightarrow> heap \<Rightarrow> slice option \<Rightarrow> slice option \<Rightarrow> bool" where
  "own_finalizers h h' s s' \<longleftrightarrow> rel_option (\<lambda>_ sl. fresh h h' (sl_array sl)) s s' \<and>
     view (hs_strings h') s' = view (hs_strings h) s"

definition own_timestamp :: "heap \<Rightarrow> heap \<Rightarrow> nat option \<Rightarrow> nat option \<Rightarrow> bool" where
  "own_timestamp h h' = rel_option (\<lambda>a b. fresh h h' b \<and> hs_times h' b = hs_times h a)"

text \<open>
  What the library promises of the metadata copy: the plain fields are equal, and the
  finalizers and the deletion timestamp have the same contents (nil stays nil) in an array and
  a cell of their own.
\<close>

definition own_meta :: "heap \<Rightarrow> heap \<Rightarrow> meta_obj \<Rightarrow> meta_obj \<Rightarrow> bool" where
  "own_meta h h' m m' \<longleftrightarrow> me_Name m' = me_Name m \<and> me_Namespace m' = me_Namespace m \<and>
     me_Generation m' = me_Generation m \<and>
     own_finalizers h h' (me_Finalizers m) (me_Finalizers m') \<and>
     own_timestamp h h' (me_DeletionTimestamp m) (me_DeletionTimestamp m')"

definition library_meta_copy :: "meta_copy \<Rightarrow> bool" where
  "library_meta_copy copyMeta \<longleftrightarrow> (\<forall>h m. own_meta h (snd (copyMeta h m)) m (fst (copyMeta h m)) \<and>
     heap_grows h (snd (copyMeta h m)))"

definition new_strings :: "slice option \<Rightarrow> heap \<Rightarrow> slice option \<times> heap" where
  "new_strings s h =
     (case s of
        None \<Rightarrow> (None, h)
      | Some sl \<Rightarrow>
          (let items = view (hs_strings h) (Some sl)
           in (Some \<lparr>sl_array = hs_next h, sl_len = length items\<rparr>,
               h\<lparr>hs_next := hs_next h + 1, hs_strings := (hs_strings h)(hs_next h := items)\<rparr>)))"

definition new_time :: "nat option \<Rightarrow> heap \<Rightarrow> nat option \<times> heap" where
  "new_time t h =
     (case t of
        None \<Rightarrow> (None, h)
      | Some a \<Rightarrow> (Some (hs_next h),
          h\<lparr>hs_next := hs_next h + 1, hs_times := (hs_times h)(hs_next h := hs_times h a)\<rparr>))"

definition copy_meta_new :: meta_copy where
  "copy_meta_new h m =
     (let (fs, h1) = new_strings (me_Finalizers m) h;
          (t, h2) = new_time (me_DeletionTimestamp m) h1
      in (m\<lparr>me_Finalizers := fs, me_DeletionTimestamp := t\<rparr>, h2))"

lemma meta_library_possible: "library_meta_copy copy_meta_new"
  by (auto simp: library_meta_copy_def copy_meta_new_def new_strings_def new_time_def own_meta_def
      own_finalizers_def own_timestamp_def fresh_def heap_grows_def view_def Let_def min_def
      split: option.splits)

text \<open>
  C24. A deep copy of a policy shares the conditions of its status with the original: setting
  a condition the original already has, through the copy, changes the original too; only
  adding a new one leaves the original as it was. The metadata is copied properly.
\<close>
theorem deepcopy_shares_conditions:
  assumes "library_meta_copy copyMeta"
    and "valid_slice h (sb_Conditions (pb_Status p))"
    and "SREPolicy_DeepCopy copyMeta (Some p) h = (Some c, h1)"
    and "setCondition_heap ty v (pb_Status c) h1 = (st, h2)"
    and "old = view (hs_conditions h) (sb_Conditions (pb_Status p))"
  shows "view (hs_conditions h2) (sb_Conditions st) = set_condition_in ty v old \<and>
    view (hs_conditions h2) (sb_Conditions (pb_Status p)) =
      (if ty \<in> condition_types old then set_condition_in ty v old else old) \<and>
    view (hs_strings h1) (me_Finalizers (pb_Meta c)) = view (hs_strings h) (me_Finalizers (pb_Meta p)) \<and>
    (\<forall>sl. me_Finalizers (pb_Meta c) = Some sl \<longrightarrow> hs_next h \<le> sl_array sl)"
proof -
  obtain m' h' where m: "copyMeta h (pb_Meta p) = (m', h')" by fastforce
  have c: "c = p\<lparr>pb_Meta := m'\<rparr>" "h1 = h'"
    using assms(3) m by (simp_all add: SREPolicy_DeepCopy_def SREPolicy_DeepCopyInto_def)
  have own: "own_meta h h' (pb_Meta p) m'" "heap_grows h h'"
    using assms(1) m unfolding library_meta_copy_def by (metis fst_conv snd_conv)+
  then have meta: "hs_conditions h' = hs_conditions h" "hs_next h \<le> hs_next h'"
    "view (hs_strings h') (me_Finalizers m') = view (hs_strings h) (me_Finalizers (pb_Meta p))"
    by (simp_all add: own_meta_def own_finalizers_def heap_grows_def)
  have new: "hs_next h \<le> sl_array sl" if "me_Finalizers m' = Some sl" for sl
    using own(1) that by (auto simp: own_meta_def own_finalizers_def fresh_def option_rel_Some2)
  have "valid_slice h1 (sb_Conditions (pb_Status c))"
    using assms(2) meta c by (auto simp: valid_slice_def split: option.splits)
  from setCondition_heap_views [OF this assms(4)] show ?thesis
    using meta new c assms(5) by auto
qed

definition cached_policy :: policy_obj where
  "cached_policy =
     \<lparr>pb_Meta = \<lparr>me_Name = ''vms'', me_Namespace = ''sre'',
        me_Finalizers = Some \<lparr>sl_array = 0, sl_len = 1\<rparr>, me_DeletionTimestamp = None, me_Generation = 1\<rparr>,
      pb_Spec = \<lparr>so_TargetNamespaces = None, so_Checks = None, so_Paused = False,
        so_OCPCluster = None, so_Prometheus = None, so_LogCollection = None, so_Notifications = None\<rparr>,
      pb_Status = \<lparr>sb_Findings = None, sb_ActiveWorkflows = None, sb_LastScanTime = None,
        sb_NextScanTime = None, sb_TotalChecks = 0, sb_RemediationsApplied = 0,
        sb_ObservedGeneration = 0, sb_HealthyCount = 0, sb_DegradedCount = 0, sb_FailedCount = 0,
        sb_Phase = [], sb_Conditions = Some \<lparr>sl_array = 1, sl_len = 1\<rparr>,
        sb_OCPClusterHealthy = None, sb_FiringAlertCount = 0, sb_FiringAlertNames = None,
        sb_ObservabilityEndpointReachable = None\<rparr>\<rparr>"

definition cache_heap :: heap where
  "cache_heap =
     \<lparr>hs_next = 2, hs_strings = (\<lambda>a. if a = 0 then [finalizerName] else []),
      hs_conditions = (\<lambda>a. if a = 1 then [\<lparr>co_Type = ''Ready'', co_Status = ''True'',
        co_Reason = ''r'', co_Message = ''m'', co_LastTransitionTime = 1\<rparr>] else []), hs_times = (\<lambda>a. 0)\<rparr>"

theorem deepcopy_shares_conditions_witness:
  "\<exists>c h1 st h2. SREPolicy_DeepCopy copy_meta_new (Some cached_policy) cache_heap = (Some c, h1) \<and>
     setCondition_heap ''Ready'' (''False'', ''x'', ''y'', 7) (pb_Status c) h1 = (st, h2) \<and>
     view (hs_conditions h2) (sb_Conditions (pb_Status cached_policy)) =
       [\<lparr>co_Type = ''Ready'', co_Status = ''False'', co_Reason = ''x'', co_Message = ''y'',
         co_LastTransitionTime = 7\<rparr>]"
proof -
  obtain c h1 where copy:
    "SREPolicy_DeepCopy copy_meta_new (Some cached_policy) cache_heap = (Some c, h1)"
    by (auto simp: SREPolicy_DeepCopy_def split_beta)
  obtain st h2 where set:
    "setCondition_heap ''Ready'' (''False'', ''x'', ''y'', 7) (pb_Status c) h1 = (st, h2)" by fastforce
  have "valid_slice cache_heap (sb_Conditions (pb_Status cached_policy))"
    by (simp add: valid_slice_def cache_heap_def cached_policy_def)
  from deepcopy_shares_conditions [OF meta_library_possible this copy set refl]
  have "view (hs_conditions h2) (sb_Conditions (pb_Status cached_policy)) =
       [\<lparr>co_Type = ''Ready'', co_Status = ''False'', co_Reason = ''x'', co_Message = ''y'',
         co_LastTransitionTime = 7\<rparr>]"
    by (simp add: view_def cache_heap_def cached_policy_def condition_types_def)
  with copy set show ?thesis by blast
qed

definition library_list_copy :: "list_meta_copy \<Rightarrow> bool" where
  "library_list_copy copyListMeta \<longleftrightarrow> (\<forall>h m. heap_grows h (snd (copyListMeta h m)))"

text \<open>What the metadata refers to exists.\<close>

definition live_meta :: "heap \<Rightarrow> meta_obj \<Rightarrow> bool" where
  "live_meta h m \<longleftrightarrow> pred_option (\<lambda>sl. sl_array sl < hs_next h) (me_Finalizers m) \<and>
     pred_option (\<lambda>a. a < hs_next h) (me_DeletionTimestamp m)"

lemma view_grows:
  "heap_grows h h' \<Longrightarrow> pred_option (\<lambda>sl. sl_array sl < hs_next h) s \<Longrightarrow>
     view (hs_strings h') s = view (hs_strings h) s"
  by (cases s) (auto simp: view_def heap_grows_def)

lemma own_finalizers_grows:
  assumes own: "own_finalizers h h1 s s'" and grow: "heap_grows h0 h" "heap_grows h1 h2"
    and live: "pred_option (\<lambda>sl. sl_array sl < hs_next h0) s"
  shows "own_finalizers h0 h2 s s'"
proof -
  have "rel_option (\<lambda>_ sl. fresh h0 h2 (sl_array sl)) s s'"
    using own grow by (auto simp: own_finalizers_def intro: option.rel_mono_strong fresh_grows)
  moreover have "pred_option (\<lambda>sl. sl_array sl < hs_next h1) s'"
    using own by (cases s') (auto simp: own_finalizers_def fresh_def option_rel_Some2)
  ultimately show ?thesis
    using view_grows [OF grow(2)] view_grows [OF grow(1) live] own by (simp add: own_finalizers_def)
qed

lemma own_timestamp_grows:
  assumes own: "own_timestamp h h1 t t'" and grow: "heap_grows h0 h" "heap_grows h1 h2"
    and live: "pred_option (\<lambda>a. a < hs_next h0) t"
  shows "own_timestamp h0 h2 t t'"
  using own live fresh_grows [OF _ grow] grow
  by (cases t; cases t') (auto simp: own_timestamp_def heap_grows_def fresh_def)

lemma own_meta_grows:
  "own_meta h h1 m m' \<Longrightarrow> heap_grows h0 h \<Longrightarrow> heap_grows h1 h2 \<Longrightarrow> live_meta h0 m \<Longrightarrow> own_meta h0 h2 m m'"
  by (auto simp: own_meta_def live_meta_def intro: own_finalizers_grows own_timestamp_grows)

text \<open>An item's copy is shallow: outside its metadata it is the original.\<close>

definition shallow :: "('a \<Rightarrow> meta_obj) \<Rightarrow> (meta_obj \<Rightarrow> 'a \<Rightarrow> 'a) \<Rightarrow> heap \<Rightarrow> heap \<Rightarrow> 'a \<Rightarrow> 'a \<Rightarrow> bool" where
  "shallow meta put h h' p q \<longleftrightarrow> put (meta p) q = p \<and> own_meta h h' (meta p) (meta q)"

definition shallow_copier :: "('a \<Rightarrow> meta_obj) \<Rightarrow> (meta_obj \<Rightarrow> 'a \<Rightarrow> 'a) \<Rightarrow> ('a \<Rightarrow> heap \<Rightarrow> 'a \<times> heap) \<Rightarrow> bool" where
  "shallow_copier meta put copyItem \<longleftrightarrow> (\<forall>p h. heap_grows h (snd (copyItem p h)) \<and>
     shallow meta put h (snd (copyItem p h)) p (fst (copyItem p h)))"

lemma shallow_copierD:
  "shallow_copier meta put copyItem \<Longrightarrow> copyItem p h = (q, h') \<Longrightarrow>
     shallow meta put h h' p q \<and> heap_grows h h'"
  unfolding shallow_copier_def by (metis fst_conv snd_conv)

lemma live_grows: "live_meta h m \<Longrightarrow> heap_grows h h' \<Longrightarrow> live_meta h' m"
  by (auto simp: live_meta_def heap_grows_def elim!: option.pred_mono_strong)

lemma shallow_grows:
  "shallow meta put h1 h2 p q \<Longrightarrow> heap_grows h0 h1 \<Longrightarrow> heap_grows h2 h3 \<Longrightarrow> live_meta h0 (meta p) \<Longrightarrow>
     shallow meta put h0 h3 p q"
  unfolding shallow_def using own_meta_grows heap_grows_refl heap_grows_trans by metis

lemma shallow_list_grows:
  assumes "list_all2 (shallow meta put h1 h2) ps qs" "heap_grows h0 h1" "\<forall>p \<in> set ps. live_meta h0 (meta p)"
  shows "list_all2 (shallow meta put h0 h2) ps qs"
proof (rule list.rel_mono_strong [OF assms(1)])
  fix x y assume "x \<in> set ps" "shallow meta put h1 h2 x y"
  then show "shallow meta put h0 h2 x y"
    using assms(3) by (intro shallow_grows [OF _ assms(2) heap_grows_refl]) simp_all
qed

lemma items_shallow:
  assumes cp: "shallow_copier meta put copyItem"
  shows "copy_items copyItem ps h = (qs, h') \<Longrightarrow> \<forall>p \<in> set ps. live_meta h (meta p) \<Longrightarrow>
     list_all2 (shallow meta put h h') ps qs \<and> heap_grows h h'"
proof (induction ps arbitrary: h qs h')
  case Nil
  then show ?case by simp
next
  case (Cons p ps)
  obtain q h1 where q: "copyItem p h = (q, h1)" by fastforce
  obtain rs h2 where rs: "copy_items copyItem ps h1 = (rs, h2)" by fastforce
  have eq: "qs = q # rs" "h' = h2" using Cons.prems(1) q rs by simp_all
  have first: "shallow meta put h h1 p q" "heap_grows h h1" using shallow_copierD [OF cp q] by simp_all
  have "\<forall>p \<in> set ps. live_meta h1 (meta p)" using Cons.prems(2) live_grows [OF _ first(2)] by simp
  from Cons.IH [OF rs this] have IH: "list_all2 (shallow meta put h1 h2) ps rs" "heap_grows h1 h2"
    by simp_all
  have "shallow meta put h h2 p q"
    using shallow_grows [OF first(1) heap_grows_refl IH(2)] Cons.prems(2) by simp
  moreover have "list_all2 (shallow meta put h h2) ps rs"
    using shallow_list_grows [OF IH(1) first(2)] Cons.prems(2) by simp
  ultimately show ?case using heap_grows_trans [OF first(2) IH(2)] by (simp add: eq)
qed

definition live_items :: "('a \<Rightarrow> meta_obj) \<Rightarrow> heap \<Rightarrow> 'a list_obj \<Rightarrow> bool" where
  "live_items meta h l \<longleftrightarrow> (case li_Items l of
      None \<Rightarrow> True | Some ps \<Rightarrow> list_all (\<lambda>p. live_meta h (meta p)) ps)"

lemma list_shallow:
  assumes cp: "shallow_copier meta put copyItem" and lib: "library_list_copy copyListMeta"
    and run: "list_DeepCopyInto copyListMeta copyItem l h = (l', h')"
    and items: "live_items meta h l"
  shows "rel_option (list_all2 (shallow meta put h h')) (li_Items l) (li_Items l')"
proof (cases "li_Items l")
  case None
  then show ?thesis using run by (auto simp: list_DeepCopyInto_def Let_def split_beta)
next
  case (Some ps)
  obtain m h1 where m: "copyListMeta h (li_ListMeta l) = (m, h1)" by fastforce
  obtain qs h2 where qs: "copy_items copyItem ps h1 = (qs, h2)" by fastforce
  have eq: "li_Items l' = Some qs" "h' = h2"
    using run Some m qs by (auto simp: list_DeepCopyInto_def Let_def)
  have live: "\<forall>p \<in> set ps. live_meta h (meta p)"
    using items Some by (simp add: live_items_def list_all_iff)
  have grow: "heap_grows h h1" using lib m by (metis library_list_copy_def snd_conv)
  have "\<forall>p \<in> set ps. live_meta h1 (meta p)" using live live_grows [OF _ grow] by blast
  from items_shallow [OF cp qs this] have "list_all2 (shallow meta put h1 h2) ps qs" by simp
  then show ?thesis using shallow_list_grows [OF _ grow live] by (simp add: Some eq)
qed

lemma policy_copier:
  "library_meta_copy copyMeta \<Longrightarrow> shallow_copier pb_Meta (\<lambda>m p. p\<lparr>pb_Meta := m\<rparr>) (SREPolicy_DeepCopyInto copyMeta)"
  by (simp add: shallow_copier_def library_meta_copy_def shallow_def SREPolicy_DeepCopyInto_def split_beta Let_def)

lemma config_copier:
  "library_meta_copy copyMeta \<Longrightarrow> shallow_copier cb_Meta (\<lambda>m p. p\<lparr>cb_Meta := m\<rparr>) (SREGlobalConfig_DeepCopyInto copyMeta)"
  by (simp add: shallow_copier_def library_meta_copy_def shallow_def SREGlobalConfig_DeepCopyInto_def split_beta Let_def)

text \<open>
  C25. A deep copy of a list, of policies or of global configurations, is deep in the metadata only:
  nil stays nil, otherwise the items are copied in order, each copy equal to its original in everything
  but the metadata, so that it shares every slice and pointer of specification and status with it. The
  metadata of a copy shows the same name, namespace, generation, finalizers and deletion
  time, the last two in an array and a cell that did not exist before.
\<close>
theorem list_copies_are_shallow:
  assumes "library_meta_copy copyMeta" and "library_list_copy copyListMeta"
    and "live_items pb_Meta h l" and "live_items cb_Meta h k"
  shows "(case SREPolicyList_DeepCopyObject copyMeta copyListMeta (Some l) h of (ro, h') \<Rightarrow>
      \<exists>l'. ro = Some (PolicyListObject l') \<and>
        rel_option (list_all2 (shallow pb_Meta (\<lambda>m p. p\<lparr>pb_Meta := m\<rparr>) h h')) (li_Items l) (li_Items l')) \<and>
    (case SREGlobalConfigList_DeepCopyObject copyMeta copyListMeta (Some k) h of (ro, h') \<Rightarrow>
      \<exists>k'. ro = Some (ConfigListObject k') \<and>
        rel_option (list_all2 (shallow cb_Meta (\<lambda>m p. p\<lparr>cb_Meta := m\<rparr>) h h')) (li_Items k) (li_Items k')) \<and>
    SREPolicyList_DeepCopyObject copyMeta copyListMeta None h = (None, h) \<and>
    SREGlobalConfigList_DeepCopyObject copyMeta copyListMeta None h = (None, h)"
proof -
  obtain l' h1 where l: "list_DeepCopyInto copyListMeta (SREPolicy_DeepCopyInto copyMeta) l h = (l', h1)"
    by fastforce
  obtain k' h2 where k: "list_DeepCopyInto copyListMeta (SREGlobalConfig_DeepCopyInto copyMeta) k h = (k', h2)"
    by fastforce
  show ?thesis
    using list_shallow [OF policy_copier [OF assms(1)] assms(2) l assms(3)]
      list_shallow [OF config_copier [OF assms(1)] assms(2) k assms(4)] l k
    by (simp add: SREPolicyList_DeepCopyObject_def SREPolicyList_DeepCopy_def
        SREPolicyList_DeepCopyInto_def SREGlobalConfigList_DeepCopyObject_def
        SREGlobalConfigList_DeepCopy_def SREGlobalConfigList_DeepCopyInto_def)
qed

definition keep_list_meta :: list_meta_copy where
  "keep_list_meta h m = (m, h)"

lemma list_library_possible: "library_list_copy keep_list_meta"
  by (simp add: library_list_copy_def keep_list_meta_def)

definition list_of :: "'a list \<Rightarrow> 'a list_obj" where
  "list_of xs = \<lparr>li_ListMeta = \<lparr>lm_ResourceVersion = ''7'', lm_Continue = [], lm_RemainingItemCount = None\<rparr>,
     li_Items = Some xs\<rparr>"

theorem list_copies_are_shallow_witness:
  "\<exists>l' h' c. SREPolicyList_DeepCopyObject copy_meta_new keep_list_meta (Some (list_of [cached_policy])) cache_heap =
     (Some (PolicyListObject l'), h') \<and> li_Items l' = Some [c] \<and>
     sb_Conditions (pb_Status c) = sb_Conditions (pb_Status cached_policy)"
proof -
  obtain ro h' where run: "SREPolicyList_DeepCopyObject copy_meta_new keep_list_meta
      (Some (list_of [cached_policy])) cache_heap = (ro, h')" by fastforce
  have live: "live_items pb_Meta cache_heap (list_of [cached_policy])"
    "live_items cb_Meta cache_heap (list_of [])"
    by (simp_all add: live_items_def list_of_def live_meta_def cached_policy_def cache_heap_def)
  obtain l' where l': "ro = Some (PolicyListObject l')"
    "rel_option (list_all2 (shallow pb_Meta (\<lambda>m p. p\<lparr>pb_Meta := m\<rparr>) cache_heap h'))
       (li_Items (list_of [cached_policy])) (li_Items l')"
    using list_copies_are_shallow [OF meta_library_possible list_library_possible live] unfolding run prod.case by blast
  then obtain c where c: "li_Items l' = Some [c]" "c\<lparr>pb_Meta := pb_Meta cached_policy\<rparr> = cached_policy"
    by (cases "li_Items l'") (auto simp: list_all2_Cons1 shallow_def list_of_def)
  have "pb_Status (c\<lparr>pb_Meta := pb_Meta cached_policy\<rparr>) = pb_Status c" by simp
  then have "sb_Conditions (pb_Status c) = sb_Conditions (pb_Status cached_policy)"
    unfolding c(2) by simp
  with run l'(1) c(1) show ?thesis by blast
qed

end
