(* ===== verification/Spec2Isabelle.thy ===== *)
theory Spec2Isabelle
  imports Workflow_Refinement Toposort_Loop Policy_Lifecycle Operator_Main Deep_Copy
begin

text \<open>
  A verification of the SRE operator: a Kubernetes operator that reconciles SREPolicy objects.
  One reconcile cycle reads a policy, runs checks, evaluates Prometheus, collects pod logs,
  applies remediations, rotates diagnostic ConfigMaps, and writes the findings to the policy's
  status. This header says which theory models which part of the source, what is proved, and
  what is left out.

  \<^bold>\<open>Layers.\<close>

  Go_Prelude, Go_Regexp and Go_Text model what the source uses of Go and its library:
  fixed-width integers, maps as association lists (a range over one takes its order as an
  argument), byte strings, the regular-expression constructs of the log patterns with a
  declarative semantics, query escaping, RFC 3339. Interfaces holds the contracts shared by
  several components, as locales: a table read and written by key, a table that accepts new
  keys, and a state machine with an inductive invariant. They are interpreted by Go maps, the
  step table of a workflow, the status conditions, the runs of a workflow, the reconcile cycles,
  the operator as started, and a cluster in which users and the operator act on a policy.

  Api_Types is api/v1alpha1: one record per struct, enumerations as strings with a definition
  per constant. Cluster_Api is everything outside the program, as one parameter: an environment
  answers every call (Kubernetes API, pod logs, clock, files, HTTP, exporters) by a function of
  the calls made so far, so no theorem assumes anything about the answers unless it says so. A
  program part is a state-monad function on that history. The predicate emits bounds the calls a
  part can make, yields the values it can return, ends_at relates its last call to the history before it
  and to its result;
  their rules follow the structure of the program, so safety proofs are short.

  \<^bold>\<open>Components.\<close>

  \<^enum> Toposort and Workflow_Run: internal/remediation/remediation.go, the workflow runner.
  topologicalSort is Kahn's algorithm over maps; it returns a permutation that respects the
  dependencies, succeeds exactly on valid workflows, and its only error is the cycle error. Run
  is one pass over the sorted steps that updates the persisted step table. Two runs complete a
  valid workflow, no step is executed twice over any number of runs, every finished step has
  the outcome its dependencies determine, and the result does not depend on map order. A step
  with an unknown run condition stalls its workflow for ever. Toposort_Loop has the main loop as
  a while loop over mutable variables, and shows that it ends on every input within one turn per
  step. Workflow_Refinement states the runner's contract as an abstract scheduler that settles
  open steps in any order their dependencies allow: every run refines it, and every complete
  schedule of a valid workflow ends as the first run does. Nothing in the source calls the runner
  yet: these theorems are about any number of calls of Run.

  \<^enum> Remediation: Engine.executeStep, Engine.Apply and the dispatcher stub of the same file.

  \<^enum> Status_Helpers: the pure helpers of internal/controller/srepolicy_controller.go. The
  in-place insertion sort equals the stable sort by rank; the cap keeps the highest-ranking
  findings; the counts count the first finding of each resource, which hides later failures
  unless the findings were sorted; conditions are a table; the requeue interval is the smallest
  positive one asked for, between 30 and 60 seconds.

  \<^enum> Log_Collector: internal/diagnostics/logcollector.go. Filtering a stream to the first 50
  matching lines, the 512 KiB line that ends a container's collection, deduplication into
  findings, the report, and the calls of a collection, which only reads, and only containers of
  pods that the lists its specification asks for have returned.

  \<^enum> Prom_Client: internal/prometheus. The token a request carries, success and errors of a
  call, filtering of alerts, escaping of queries. The watcher and the metric checker are stubs.

  \<^enum> Telemetry: internal/telemetry and internal/checks (stub registry and checkers).

  \<^enum> Reconciler, Reconcile_Values, Reconcile_Safety and Reconcile_Cycle: the controller's
  Reconcile and every method it calls, in the order of the source, with the aggregator stubs.
  Values says what the parts of a cycle return. Safety bounds every call of a cycle by what the
  policy and the global configuration ask for, and proves the rotation; Cycle proves what a cycle
  writes, with its findings traced back to the log collection it ran, and returns on each path, the accounting of remediations, the refresh of telemetry, and the reuse of the
  Prometheus client as an invariant over all sequences of cycles.

  \<^enum> Policy_Lifecycle: one stored policy over time, as a step relation: users create, edit and
  delete it, the operator reconciles it, reads may be stale and writes refused, and a current
  read may show conditions that a cycle changed in place in the cache. An edit that adds or removes
  the operator's finalizer is allowed, under an actor of its own (UserForce). The API server is
  a record of two functions with its documented contract as a hypothesis. Every run of this
  system refines a life cycle of five phases (Absent, Unmanaged, Managed, Terminating, Released)
  in which, but for such edits, only the operator adopts and releases; a cycle with a current read and an accepted
  write makes progress; and the stored status always has the shape status_ok describes. In
  particular the phase is never Degraded: the only findings a cycle can make come from log
  collection and are Degraded or Unknown, never Failed.

  \<^enum> Main_Flags and Operator_Main: main.go. The command line as package flag reads it and the
  manager options made of it, the registration of the types with the scheme, and the start-up
  steps with their exits. The reconciler that main builds has no telemetry provider, and as an
  invariant over all its cycles never gets one: each cycle of an active policy panics, and in a
  cluster the deployed operator never reports anything. The other theorems on cycles therefore
  take a reconciler with a provider as a hypothesis, which is the state the code after that
  line is written for.

  \<^enum> Deep_Copy: the twelve hand-written copy functions of both kinds and their lists, over an
  explicit heap of slices and cells. Copies are deep in the metadata only: its finalizers and
  its deletion time are the copy's own, everything specification and status refer to is shared, so that setting a
  condition through a copy changes the original.

  \<^bold>\<open>Bounds.\<close> No definition runs on fuel that could run out. The loop of topologicalSort
  is a recursive function with a measure (queue length plus names with open dependencies), and the
  while loop of the source is shown to return on every input. The matcher of Go_Regexp
  iterates a star as often as there is text left, which is enough because every round consumes
  (lemma star_ends_iff); all other loops are structural recursions over lists. Integers that the
  source keeps at 32 or 64 bits are words, and conversions from lengths wrap as in the source.

  \<^bold>\<open>Parameters.\<close> Compiling a custom regular expression, the order sort.Slice gives
  ConfigMaps, formatting a duration with one decimal, JSON decoding, scanning a float64, the
  syntax check of a URL, the library's copies of object and list metadata, the flags of linked
  libraries, the manager's constructors and the API server's treatment of writes are arguments.
  The rotation theorem assumes of the sort that it permutes and orders by age; the copy theorems
  assume that the metadata copy has equal contents in new arrays and cells; the life-cycle theorems
  assume that an accepted status update leaves the rest of the object alone and the other way
  round, and that an object marked for deletion goes away with its last finalizer; nobody but the
  operator writes the status.

  \<^bold>\<open>Not modelled.\<close> Spans and log lines, which no value depends on, with the dummy
  tracer; the constructors that only wrap their arguments in a struct; timeouts and cancellation,
  which are part of what the environment answers; the panic recovery and the work queue of
  controller-runtime. The Helm chart, the Makefile and the documents hold no program logic.
\<close>

end
